theory Spec2Isabelle
  imports
    Complex_Main
    "HOL-Library.Multiset"
    "HOL-Library.List_Lexorder"
    "HOL-Library.Char_ord"
begin

section \<open>Scope of the model\<close>

text \<open>
  The development embeds the numerical core of the QREM detector-tomography code
  (\<^verbatim>\<open>povmtools.py\<close> and \<^verbatim>\<open>DetectorTomography.py\<close>).

  \<^item> Python floats and numpy \<^verbatim>\<open>float64\<close>/\<^verbatim>\<open>complex128\<close> scalars are modelled by the exact
    fields \<^typ>\<open>real\<close> and \<^typ>\<open>complex\<close>: rounding, overflow and NaN are outside the model.
  \<^item> A two-dimensional numpy array is a list of rows. The linear-algebra primitives
    (\<^verbatim>\<open>@\<close>, \<^verbatim>\<open>np.kron\<close>, \<^verbatim>\<open>np.trace\<close>, \<^verbatim>\<open>np.eye\<close>) are total list functions; numpy rejects
    operands whose shapes do not agree, so statements about them carry the shapes as
    hypotheses.
  \<^item> The three library routines \<^verbatim>\<open>scipy.linalg.sqrtm\<close>, \<^verbatim>\<open>np.linalg.inv\<close> and
    \<^verbatim>\<open>np.linalg.norm(_, ord=2)\<close> are parameters of the model.
  \<^item> The failures the code handles itself are values: the \<^verbatim>\<open>LinAlgError\<close> of a failed
    inversion is \<open>None\<close>, a division by a zero expectation value is a fault, and a
    \<^verbatim>\<open>while\<close> loop that never ends has the value \<open>None\<close>. An index outside a Python list
    raises \<^verbatim>\<open>IndexError\<close>; the statements assume the lists long enough.
\<close>

section \<open>Closest probability vector (\<^verbatim>\<open>povmtools.find_closest_prob_vector\<close>)\<close>

text \<open>
  The inner \<^verbatim>\<open>for j in range(i + 1): p1_sorted[j][1] += a / (i + 1)\<close> of the else branch.
\<close>

definition add_to_prefix :: "nat \<Rightarrow> real \<Rightarrow> (nat \<times> real) list \<Rightarrow> (nat \<times> real) list" where
  "add_to_prefix k c p = fold (\<lambda>j q. q[j := (fst (q ! j), snd (q ! j) + c)]) [0..<k] p"

text \<open>
  The loop \<^verbatim>\<open>for i in np.arange(0, d)[::-1]\<close>, with the first argument \<open>i + 1\<close>: the number
  of sorted entries not yet visited. The second argument is the accumulator \<^verbatim>\<open>a\<close>. The
  else branch ends the loop (\<^verbatim>\<open>break\<close>).
\<close>

fun closest_loop :: "nat \<Rightarrow> real \<Rightarrow> (nat \<times> real) list \<Rightarrow> (nat \<times> real) list" where
  "closest_loop 0 a p = p"
| "closest_loop (Suc i) a p =
     (let mu_i = snd (p ! i) in
      if mu_i + a / real (i + 1) < 0
      then closest_loop i (a + mu_i) (p[i := (fst (p ! i), 0)])
      else add_to_prefix (i + 1) (a / real (i + 1)) p)"

text \<open>
  \<^verbatim>\<open>sorted(p1, reverse=True, key=lambda x: x[1])\<close> is a stable sort in descending order of
  the value: entries of equal value keep their order, which is what a stable ascending
  sort on the negated value does. \<^verbatim>\<open>sorted(p1_sorted, key=lambda x: x[0])\<close> sorts on the
  remembered index.
\<close>

definition find_closest_prob_vector :: "real list \<Rightarrow> real list" where
  "find_closest_prob_vector quasiprobability_vector =
     (let d = length quasiprobability_vector;
          p000 = quasiprobability_vector;
          p1 = map (\<lambda>i. (i, p000 ! i)) [0..<d];
          p1_sorted = sort_key (\<lambda>x. - snd x) p1;
          p1_final = closest_loop d 0 p1_sorted;
          ordered_p = sort_key fst p1_final;
          p_good_format = map (\<lambda>i. snd (ordered_p ! i)) [0..<d]
      in p_good_format)"

text \<open>\<^verbatim>\<open>is_valid_probability_vector\<close> without its tolerance: no negative entry, sum one.\<close>

definition is_probability_vector :: "real list \<Rightarrow> bool" where
  "is_probability_vector v = (list_all (\<lambda>x. 0 \<le> x) v \<and> sum_list v = 1)"

section \<open>Matrices\<close>

text \<open>
  A numpy matrix is the list of its rows. \<open>nrows\<close> and \<open>ncols\<close> are \<^verbatim>\<open>shape[0]\<close> and
  \<^verbatim>\<open>shape[1]\<close>; \<open>is_mat r c A\<close> says that \<open>A\<close> has shape \<open>(r, c)\<close>. \<open>eye\<close> is \<^verbatim>\<open>np.eye\<close>
  and \<open>mat_mul\<close> is the operator \<^verbatim>\<open>@\<close> on operands whose inner dimensions agree.
\<close>

type_synonym cmat = "complex list list"

definition nrows :: "cmat \<Rightarrow> nat" where
  "nrows A = length A"

definition ncols :: "cmat \<Rightarrow> nat" where
  "ncols A = (case A of [] \<Rightarrow> 0 | row # _ \<Rightarrow> length row)"

definition is_mat :: "nat \<Rightarrow> nat \<Rightarrow> cmat \<Rightarrow> bool" where
  "is_mat r c A = (length A = r \<and> list_all (\<lambda>row. length row = c) A)"

definition eye :: "nat \<Rightarrow> cmat" where
  "eye n = map (\<lambda>i. map (\<lambda>j. if i = j then 1 else 0) [0..<n]) [0..<n]"

definition mat_mul :: "cmat \<Rightarrow> cmat \<Rightarrow> cmat" where
  "mat_mul A B =
     map (\<lambda>row. map (\<lambda>j. sum_list (map (\<lambda>k. row ! k * B ! k ! j) [0..<nrows B])) [0..<ncols B]) A"

section \<open>Qubit permutation (\<^verbatim>\<open>povmtools.qubit_swap\<close>, \<^verbatim>\<open>povmtools.permute_matrix\<close>)\<close>

text \<open>The assignment \<^verbatim>\<open>transformation[r, c] = v\<close>.\<close>

definition mat_set :: "cmat \<Rightarrow> nat \<Rightarrow> nat \<Rightarrow> complex \<Rightarrow> cmat" where
  "mat_set T r c v = T[r := (T ! r)[c := v]]"

text \<open>
  \<open>zfill n (bin_digits j)\<close> is \<^verbatim>\<open>bin(j)[2:].zfill(n)\<close> and \<open>int_base2 s\<close> is \<^verbatim>\<open>int(s, 2)\<close> on
  a string of binary digits.
\<close>

definition bit_char :: "nat \<Rightarrow> char" where
  "bit_char b = (if b = 0 then CHR ''0'' else CHR ''1'')"

fun bin_digits :: "nat \<Rightarrow> string" where
  "bin_digits x = (if x < 2 then [bit_char x] else bin_digits (x div 2) @ [bit_char (x mod 2)])"

definition zfill :: "nat \<Rightarrow> string \<Rightarrow> string" where
  "zfill n s = replicate (n - length s) CHR ''0'' @ s"

definition int_base2 :: "string \<Rightarrow> nat" where
  "int_base2 s = foldl (\<lambda>acc c. 2 * acc + (if c = CHR ''1'' then 1 else 0)) 0 s"

text \<open>
  The positions of a transposition are numbered from 1, as in the source, and are
  natural numbers here: position 0, which Python would read as the index \<open>-1\<close>, is
  outside the model. The tuple assignment
  \<^verbatim>\<open>string[i], string[j] = string[j], string[i]\<close> reads both right-hand sides before it
  writes \<^verbatim>\<open>string[i]\<close> and then \<^verbatim>\<open>string[j]\<close>.
\<close>

definition qubit_swap :: "nat \<Rightarrow> nat \<times> nat \<Rightarrow> cmat" where
  "qubit_swap n transposition =
     (let D = 2 ^ n;
          i = fst transposition - 1;
          j = snd transposition - 1;
          names = map (\<lambda>j. zfill n (bin_digits j)) [0..<2 ^ n];
          new_names = map (\<lambda>string. string[i := string ! j, j := string ! i]) names;
          transformation = eye D
      in fold (\<lambda>x T. let bit = int_base2 (new_names ! x) in
                 if bit \<noteq> x
                 then mat_set (mat_set (mat_set (mat_set T x x 0) bit bit 0) bit x 1) x bit 1
                 else T)
           [0..<length names] transformation)"

definition permute_matrix :: "cmat \<Rightarrow> nat \<Rightarrow> nat \<times> nat \<Rightarrow> cmat" where
  "permute_matrix matrix n transposition =
     (let swap = qubit_swap n transposition in mat_mul (mat_mul swap matrix) swap)"

text \<open>The default argument \<^verbatim>\<open>transposition=(1, 1)\<close> of \<^verbatim>\<open>qubit_swap\<close>.\<close>

definition qubit_swap_default :: "nat \<Rightarrow> cmat" where
  "qubit_swap_default n = qubit_swap n (1, 1)"

subsection \<open>Notions used in the proofs\<close>

text \<open>
  \<open>swapped_label n i j x\<close> is the value of \<^verbatim>\<open>bit\<close> in the loop of \<^verbatim>\<open>qubit_swap\<close> at \<open>x\<close>
  (with the positions \<open>i\<close>, \<open>j\<close> counted from 0), and \<open>swap_step\<close> is the body of that loop.
\<close>

declare bin_digits.simps [simp del]

definition bitstring :: "string \<Rightarrow> bool" where
  "bitstring s = list_all (\<lambda>c. c = CHR ''0'' \<or> c = CHR ''1'') s"

definition swap_chars :: "nat \<Rightarrow> nat \<Rightarrow> string \<Rightarrow> string" where
  "swap_chars i j s = s[i := s ! j, j := s ! i]"

definition swapped_label :: "nat \<Rightarrow> nat \<Rightarrow> nat \<Rightarrow> nat \<Rightarrow> nat" where
  "swapped_label n i j x = int_base2 (swap_chars i j (zfill n (bin_digits x)))"

definition swap_step :: "(nat \<Rightarrow> nat) \<Rightarrow> nat \<Rightarrow> cmat \<Rightarrow> cmat" where
  "swap_step f x T =
     (if f x \<noteq> x then mat_set (mat_set (mat_set (mat_set T x x 0) (f x) (f x) 0) (f x) x 1) x (f x) 1 else T)"

section \<open>Composition of POVMs (\<^verbatim>\<open>DetectorTomography.join_povms\<close>)\<close>

text \<open>\<^verbatim>\<open>np.kron\<close> of two matrices.\<close>

definition kron :: "cmat \<Rightarrow> cmat \<Rightarrow> cmat" where
  "kron A B = concat (map (\<lambda>row_a. map (\<lambda>row_b. concat (map (\<lambda>x. map (\<lambda>y. x * y) row_b) row_a)) B) A)"

text \<open>
  Modelled from the spec: the class \<^verbatim>\<open>GeneralTensorCalculator\<close> of the package \<^verbatim>\<open>PyMaLi\<close> is
  imported by the sources but is not among them. Following the specification,
  \<^verbatim>\<open>calculate_tensor_to_increasing_list\<close> enumerates the Cartesian product of the operand
  lists with the index of the last list varying fastest, and applies the combination
  function given to the constructor to every tuple.
\<close>

fun cartesian_increasing :: "'a list list \<Rightarrow> 'a list list" where
  "cartesian_increasing [] = [[]]"
| "cartesian_increasing (xs # xss) = concat (map (\<lambda>x. map (\<lambda>t. x # t) (cartesian_increasing xss)) xs)"

definition calculate_tensor_to_increasing_list :: "('a list \<Rightarrow> 'b) \<Rightarrow> 'a list list \<Rightarrow> 'b list" where
  "calculate_tensor_to_increasing_list f objects = map f (cartesian_increasing objects)"

text \<open>
  The two combination functions of the sources. \<^verbatim>\<open>gtc_tensor_counting_function\<close> starts
  from the scalar 1, which \<^verbatim>\<open>np.kron\<close> treats as the \<open>1 \<times> 1\<close> matrix.
  \<^verbatim>\<open>gtc_matrix_product_counting_function\<close> reads \<^verbatim>\<open>arguments[0]\<close>: on an empty argument list
  Python raises \<^verbatim>\<open>IndexError\<close>, which happens only when no POVM at all is given; the model
  returns the empty matrix there.
\<close>

definition gtc_tensor_counting_function :: "cmat list \<Rightarrow> cmat" where
  "gtc_tensor_counting_function arguments = fold (\<lambda>a result. kron result a) arguments [[1]]"

definition gtc_matrix_product_counting_function :: "cmat list \<Rightarrow> cmat" where
  "gtc_matrix_product_counting_function arguments =
     (case arguments of [] \<Rightarrow> [] | a # rest \<Rightarrow> fold (\<lambda>b result. mat_mul result b) rest a)"

text \<open>
  \<^verbatim>\<open>sort_things\<close> is \<^verbatim>\<open>[x for _, x in sorted(zip(X, Y), key=lambda pair: pair[0])]\<close>:
  \<^verbatim>\<open>zip\<close> stops at the shorter list and \<^verbatim>\<open>sorted\<close> is stable. The keys are integers in
  \<^verbatim>\<open>sort_bitstring\<close> and strings, compared lexicographically, in \<^verbatim>\<open>join_povms\<close>.
\<close>

definition sort_things :: "'a list \<Rightarrow> ('k::linorder) list \<Rightarrow> 'a list" where
  "sort_things stuff_to_sort according_to_what =
     map snd (sort_key fst (zip according_to_what stuff_to_sort))"

definition sort_bitstring :: "string \<Rightarrow> nat list \<Rightarrow> string" where
  "sort_bitstring string new_order = sort_things string new_order"

definition reorder_classical_register :: "nat list \<Rightarrow> string list" where
  "reorder_classical_register new_order =
     (let n = length new_order;
          standard_register = map (\<lambda>j. zfill n (bin_digits j)) [0..<2 ^ n]
      in map (\<lambda>s. sort_bitstring s new_order) standard_register)"

text \<open>
  Qubit indices count from 0. The inner loop \<^verbatim>\<open>for j in range(len(indices_now))[::-1]\<close>
  is a fold over the reversed range.
\<close>

definition join_povms :: "cmat list list \<Rightarrow> nat list list \<Rightarrow> cmat list" where
  "join_povms povms qubit_indices_lists =
     (let qubits_num = sum_list (map length qubit_indices_lists);
          swapped_povms = map (\<lambda>i.
             let indices_now = qubit_indices_lists ! i;
                 povm_now = povms ! i;
                 povm_now_extended = map (\<lambda>Mi. kron Mi (eye (2 ^ (qubits_num - length indices_now)))) povm_now
             in fold (\<lambda>j swapped_povm.
                   let index_qubit_now = indices_now ! j in
                   if index_qubit_now \<noteq> j
                   then map (\<lambda>Mj. permute_matrix Mj qubits_num (j + 1, index_qubit_now + 1)) swapped_povm
                   else swapped_povm)
                 (rev [0..<length indices_now]) povm_now_extended)
             [0..<length qubit_indices_lists];
          povm = calculate_tensor_to_increasing_list gtc_matrix_product_counting_function swapped_povms;
          indices_order = fold (\<lambda>indices_list acc. acc @ indices_list) qubit_indices_lists [];
          new_classical_register = reorder_classical_register indices_order;
          sorted_povm = sort_things povm new_classical_register
      in sorted_povm)"

section \<open>Maximum-likelihood estimator (\<^verbatim>\<open>DetectorTomographyFitter\<close>)\<close>

subsection \<open>Library routines and elementwise operations\<close>

text \<open>
  The three library routines are fields of a record: \<open>la_sqrtm\<close> is
  \<^verbatim>\<open>scipy.linalg.sqrtm\<close>, \<open>la_inv\<close> is \<^verbatim>\<open>np.linalg.inv\<close>, whose \<^verbatim>\<open>LinAlgError\<close> is the value
  \<open>None\<close>, and \<open>la_norm2\<close> is \<^verbatim>\<open>np.linalg.norm(_, ord=2)\<close>.
\<close>

record linalg =
  la_sqrtm :: "cmat \<Rightarrow> cmat"
  la_inv :: "cmat \<Rightarrow> cmat option"
  la_norm2 :: "cmat \<Rightarrow> real"

text \<open>
  A division by zero has no value in exact arithmetic (numpy would produce \<^verbatim>\<open>inf\<close> or
  \<^verbatim>\<open>nan\<close> with a warning): \<open>np_divide\<close> reports it as a fault.
\<close>

datatype fault = ZeroDivision

definition np_divide :: "complex \<Rightarrow> complex \<Rightarrow> fault + complex" where
  "np_divide x y = (if y = 0 then Inl ZeroDivision else Inr (x / y))"

text \<open>
  \<^verbatim>\<open>np.zeros((r, c))\<close>, the elementwise \<^verbatim>\<open>+\<close> and \<^verbatim>\<open>-\<close> of two matrices of one shape, the
  product of a scalar and a matrix, the quotient of a matrix by a scalar, \<^verbatim>\<open>np.trace\<close> of a
  square matrix and the Frobenius norm \<^verbatim>\<open>np.linalg.norm(_)\<close>.
\<close>

definition zeros :: "nat \<Rightarrow> nat \<Rightarrow> cmat" where
  "zeros r c = replicate r (replicate c 0)"

definition mat_add :: "cmat \<Rightarrow> cmat \<Rightarrow> cmat" where
  "mat_add A B = map2 (map2 (+)) A B"

definition mat_sub :: "cmat \<Rightarrow> cmat \<Rightarrow> cmat" where
  "mat_sub A B = map2 (map2 (-)) A B"

definition mat_scale :: "complex \<Rightarrow> cmat \<Rightarrow> cmat" where
  "mat_scale x A = map (map (\<lambda>y. x * y)) A"

definition mat_div :: "cmat \<Rightarrow> complex \<Rightarrow> cmat" where
  "mat_div A x = map (map (\<lambda>y. y / x)) A"

definition trace :: "cmat \<Rightarrow> complex" where
  "trace A = sum_list (map (\<lambda>k. A ! k ! k) [0..<nrows A])"

definition frobenius_norm :: "cmat \<Rightarrow> real" where
  "frobenius_norm A = sqrt (sum_list (map (\<lambda>z. (cmod z)\<^sup>2) (concat A)))"

subsection \<open>Calibration setup (\<^verbatim>\<open>QDTCalibrationSetup\<close>)\<close>

text \<open>
  \<^verbatim>\<open>ket_to_bra\<close> is \<^verbatim>\<open>np.matrix.getH\<close>, the conjugate transpose; a ket is a matrix with one
  column. \<open>QDTCalibrationSetup_init\<close> is the constructor \<^verbatim>\<open>__init__\<close>, which derives the
  probe states from the kets; \<^verbatim>\<open>from_qiskit_results\<close> reads experiment records and is not
  modelled.
\<close>

definition conjugate_transpose :: "cmat \<Rightarrow> cmat" where
  "conjugate_transpose A = map (\<lambda>j. map (\<lambda>row. cnj (row ! j)) A) [0..<ncols A]"

definition ket_to_bra :: "cmat \<Rightarrow> cmat" where
  "ket_to_bra ket = conjugate_transpose ket"

definition get_density_matrix :: "cmat \<Rightarrow> cmat" where
  "get_density_matrix ket = mat_mul ket (ket_to_bra ket)"

record QDTCalibrationSetup =
  qubits_number :: nat
  probe_kets :: "cmat list"
  probe_states :: "cmat list"
  frequencies_array :: "real list list"

definition get_probe_states :: "nat \<Rightarrow> cmat list \<Rightarrow> cmat list" where
  "get_probe_states qubits_num kets =
     (let states = fold (\<lambda>i acc. acc @ [map get_density_matrix kets]) [0..<qubits_num] []
      in calculate_tensor_to_increasing_list gtc_tensor_counting_function states)"

definition QDTCalibrationSetup_init :: "nat \<Rightarrow> cmat list \<Rightarrow> real list list \<Rightarrow> QDTCalibrationSetup" where
  "QDTCalibrationSetup_init qubits_num kets frequencies =
     \<lparr>qubits_number = qubits_num, probe_kets = kets,
      probe_states = get_probe_states qubits_num kets, frequencies_array = frequencies\<rparr>"

subsection \<open>One step of the recursion\<close>

text \<open>
  The loop \<^verbatim>\<open>for probe_state_index in range(number_of_probe_states)\<close> of
  \<^verbatim>\<open>__get_r_operator\<close>, with the accumulator \<^verbatim>\<open>m_r\<close> as last argument. \<^verbatim>\<open>continue\<close> goes on
  with the rest of the range and leaves \<^verbatim>\<open>m_r\<close> as it is.
\<close>

fun r_operator_loop ::
  "cmat \<Rightarrow> nat \<Rightarrow> real list list \<Rightarrow> cmat list \<Rightarrow> nat list \<Rightarrow> cmat \<Rightarrow> fault + cmat" where
  "r_operator_loop m_m index_of_povm_effect freqs states [] m_r = Inr m_r"
| "r_operator_loop m_m index_of_povm_effect freqs states (probe_state_index # rest) m_r =
     (let expectation_value_on_probe_state = trace (mat_mul m_m (states ! probe_state_index)) in
      if expectation_value_on_probe_state = 0
      then r_operator_loop m_m index_of_povm_effect freqs states rest m_r
      else case np_divide (complex_of_real (freqs ! probe_state_index ! index_of_povm_effect))
                  expectation_value_on_probe_state of
             Inl e \<Rightarrow> Inl e
           | Inr x \<Rightarrow> r_operator_loop m_m index_of_povm_effect freqs states rest
                       (mat_add m_r (mat_scale x (states ! probe_state_index))))"

text \<open>
  In \<^verbatim>\<open>__get_r_operator\<close> the variable \<^verbatim>\<open>number_of_probe_states\<close> is the number of rows of
  the frequencies array. \<^verbatim>\<open>probe_states[0]\<close> needs a probe state, and every row of
  frequencies needs its probe state: the statements about this function assume both.
\<close>

definition get_r_operator :: "cmat \<Rightarrow> nat \<Rightarrow> real list list \<Rightarrow> cmat list \<Rightarrow> fault + cmat" where
  "get_r_operator m_m index_of_povm_effect freqs states =
     (let number_of_probe_states = length freqs;
          d = nrows (states ! 0)
      in case r_operator_loop m_m index_of_povm_effect freqs states
                [0..<number_of_probe_states] (zeros d d) of
           Inl e \<Rightarrow> Inl e
         | Inr m_r \<Rightarrow> Inr (if frobenius_norm m_r = 0 then zeros d d else m_r))"

text \<open>
  The sum of the specification: over exactly the probe states \<open>s\<close> with
  \<open>Tr(M\<^sub>j \<rho>\<^sub>s) \<noteq> 0\<close>, of \<open>[f(s, j) / Tr(M\<^sub>j \<rho>\<^sub>s)] \<rho>\<^sub>s\<close>, added up from the zero matrix.
\<close>

definition r_operator_spec :: "cmat \<Rightarrow> nat \<Rightarrow> real list list \<Rightarrow> cmat list \<Rightarrow> cmat" where
  "r_operator_spec m_m j freqs states =
     foldl mat_add (zeros (nrows (states ! 0)) (nrows (states ! 0)))
       (map (\<lambda>s. mat_scale (complex_of_real (freqs ! s ! j) / trace (mat_mul m_m (states ! s))) (states ! s))
            (filter (\<lambda>s. trace (mat_mul m_m (states ! s)) \<noteq> 0) [0..<length freqs]))"

definition get_lagrange_matrix :: "linalg \<Rightarrow> cmat list \<Rightarrow> cmat list \<Rightarrow> cmat" where
  "get_lagrange_matrix la r_matrices povms =
     (let number_of_povms = length povms;
          dimension = nrows (povms ! 0);
          second_power_of_lagrange_matrix =
            fold (\<lambda>j acc. mat_add acc (mat_mul (mat_mul (r_matrices ! j) (povms ! j)) (r_matrices ! j)))
              [0..<number_of_povms] (zeros dimension dimension)
      in la_sqrtm la second_power_of_lagrange_matrix)"

text \<open>
  The \<^verbatim>\<open>try\<close> of \<^verbatim>\<open>__calculate_symmetric_m\<close>: the \<^verbatim>\<open>except np.linalg.LinAlgError\<close> branch
  takes \<^verbatim>\<open>np.eye(np.shape(m_lagrange_matrix)[0])\<close> for the inverse.
\<close>

definition calculate_symmetric_m :: "linalg \<Rightarrow> cmat \<Rightarrow> cmat \<Rightarrow> cmat \<Rightarrow> cmat" where
  "calculate_symmetric_m la m_lagrange_matrix m_r m_m =
     (let m_inversed_lagrange_matrix =
            (case la_inv la m_lagrange_matrix of
               Some inverse_matrix \<Rightarrow> inverse_matrix
             | None \<Rightarrow> eye (nrows m_lagrange_matrix))
      in mat_mul (mat_mul (mat_mul (mat_mul m_inversed_lagrange_matrix m_r) m_m) m_r)
           m_inversed_lagrange_matrix)"

subsection \<open>The loop of \<^verbatim>\<open>get_maximum_likelihood_povm_estimator\<close>\<close>

text \<open>
  The variables of the \<^verbatim>\<open>while\<close> loop. \<^verbatim>\<open>last_step_povm\<close> is unbound in Python until the
  first checkpoint assigns it and is not read before; it starts as the empty list here.
\<close>

record mle_state =
  st_i :: nat
  st_povm :: "cmat list"
  st_last_step_povm :: "cmat list"
  st_current_difference :: real
  st_threshold :: real

text \<open>
  A list comprehension over results: the first fault, if any, is the result.
\<close>

fun collect :: "(fault + 'a) list \<Rightarrow> fault + 'a list" where
  "collect [] = Inr []"
| "collect (x # xs) =
     (case x of Inl e \<Rightarrow> Inl e
      | Inr v \<Rightarrow> (case collect xs of Inl e \<Rightarrow> Inl e | Inr vs \<Rightarrow> Inr (v # vs)))"

text \<open>
  The body of the \<^verbatim>\<open>while\<close> loop. In \<^verbatim>\<open>get_maximum_likelihood_povm_estimator\<close> the variable
  \<^verbatim>\<open>number_of_probe_states\<close> is the number of columns of the frequencies array, that is
  the number of effects. The comparisons \<^verbatim>\<open>i > 5e5\<close> and \<^verbatim>\<open>i > 1e5\<close> are between an integer
  and a float without fraction.
\<close>

definition mle_iteration :: "linalg \<Rightarrow> QDTCalibrationSetup \<Rightarrow> nat \<Rightarrow> mle_state \<Rightarrow> fault + mle_state" where
  "mle_iteration la calibration_setup number_of_probe_states s =
     (let i = st_i s + 1;
          povm = st_povm s;
          last_step_povm = (if i mod 50 = 0 then povm else st_last_step_povm s)
      in case collect (map (\<lambda>j. get_r_operator (povm ! j) j (frequencies_array calibration_setup)
                                   (probe_states calibration_setup))
                         [0..<number_of_probe_states]) of
           Inl e \<Rightarrow> Inl e
         | Inr r_matrices \<Rightarrow>
             (let lagrange_matrix = get_lagrange_matrix la r_matrices povm;
                  new_povm = map (\<lambda>j. calculate_symmetric_m la lagrange_matrix (r_matrices ! j) (povm ! j))
                               [0..<number_of_probe_states];
                  s' = s\<lparr>st_i := i, st_povm := new_povm, st_last_step_povm := last_step_povm\<rparr>
              in Inr (if i mod 50 = 0
                      then s'\<lparr>st_current_difference :=
                               sum_list (map (\<lambda>k. la_norm2 la (mat_sub (new_povm ! k) (last_step_povm ! k)))
                                           [0..<number_of_probe_states])\<rparr>
                      else if 500000 < i then s'\<lparr>st_threshold := 1 / 1000\<rparr>
                      else if 100000 < i then s'\<lparr>st_threshold := 1 / 10000\<rparr>
                      else s')))"

text \<open>
  The \<^verbatim>\<open>while abs(current_difference) >= threshold\<close> loop. It may run forever: not
  returning is the value \<open>None\<close>.
\<close>

partial_function (option) mle_loop ::
  "linalg \<Rightarrow> QDTCalibrationSetup \<Rightarrow> nat \<Rightarrow> mle_state \<Rightarrow> (fault + mle_state) option" where
  "mle_loop la calibration_setup number_of_probe_states s =
     (if st_threshold s \<le> \<bar>st_current_difference s\<bar>
      then (case mle_iteration la calibration_setup number_of_probe_states s of
              Inl e \<Rightarrow> Some (Inl e)
            | Inr s' \<Rightarrow> mle_loop la calibration_setup number_of_probe_states s')
      else Some (Inr s))"

text \<open>
  \<open>initial_povm\<close> is the loop \<^verbatim>\<open>for j in range(number_of_probe_states): povm.append(...)\<close>
  and \<open>real_ncols\<close> is \<^verbatim>\<open>shape[1]\<close> of the frequencies array. The field
  \<^verbatim>\<open>algorithmConvergenceThreshold\<close> of the fitter is an argument.
\<close>

definition initial_povm :: "nat \<Rightarrow> nat \<Rightarrow> cmat list" where
  "initial_povm number_of_probe_states dimension =
     fold (\<lambda>j povm. povm @ [mat_div (eye dimension) (of_nat number_of_probe_states)])
       [0..<number_of_probe_states] []"

definition real_ncols :: "real list list \<Rightarrow> nat" where
  "real_ncols A = (case A of [] \<Rightarrow> 0 | row # _ \<Rightarrow> length row)"

definition get_maximum_likelihood_povm_estimator ::
  "linalg \<Rightarrow> real \<Rightarrow> QDTCalibrationSetup \<Rightarrow> (fault + cmat list) option" where
  "get_maximum_likelihood_povm_estimator la algorithmConvergenceThreshold calibration_setup =
     (let number_of_probe_states = real_ncols (frequencies_array calibration_setup);
          dimension = nrows (probe_states calibration_setup ! 0);
          povm = initial_povm number_of_probe_states dimension;
          threshold = algorithmConvergenceThreshold
      in map_option (map_sum id st_povm)
           (mle_loop la calibration_setup number_of_probe_states
              \<lparr>st_i = 0, st_povm = povm, st_last_step_povm = [],
               st_current_difference = 1, st_threshold = threshold\<rparr>))"

text \<open>The state after \<open>n\<close> runs of the loop body, whatever the loop test says.\<close>

fun mle_steps :: "linalg \<Rightarrow> QDTCalibrationSetup \<Rightarrow> nat \<Rightarrow> nat \<Rightarrow> mle_state \<Rightarrow> fault + mle_state" where
  "mle_steps la calibration_setup number_of_probe_states 0 s = Inr s"
| "mle_steps la calibration_setup number_of_probe_states (Suc n) s =
     (case mle_iteration la calibration_setup number_of_probe_states s of
        Inl e \<Rightarrow> Inl e
      | Inr s' \<Rightarrow> mle_steps la calibration_setup number_of_probe_states n s')"

subsection \<open>The library routines on diagonal matrices, and two calibration setups\<close>

text \<open>
  On a diagonal matrix with real non-negative diagonal the three library routines have
  closed forms: the principal square root takes the square root of every entry, the
  inverse takes the reciprocals of the diagonal and fails when one of them is zero, and
  the spectral norm is the largest modulus on the diagonal. \<open>diag_linalg\<close> is used only on
  such matrices.
\<close>

definition diag_sqrtm :: "cmat \<Rightarrow> cmat" where
  "diag_sqrtm A = map (map csqrt) A"

definition diag_inv :: "cmat \<Rightarrow> cmat option" where
  "diag_inv A =
     (if list_ex (\<lambda>k. A ! k ! k = 0) [0..<nrows A] then None
      else Some (map (\<lambda>r. map (\<lambda>c. if r = c then 1 / A ! r ! r else 0) [0..<nrows A]) [0..<nrows A]))"

definition diag_norm2 :: "cmat \<Rightarrow> real" where
  "diag_norm2 A = fold max (map (\<lambda>k. cmod (A ! k ! k)) [0..<nrows A]) 0"

definition diag_linalg :: linalg where
  "diag_linalg = \<lparr>la_sqrtm = diag_sqrtm, la_inv = diag_inv, la_norm2 = diag_norm2\<rparr>"

text \<open>
  One qubit probed with the two kets of the computational basis. In \<open>swing_setup\<close> the
  detector reads the wrong bit once in eight shots; in \<open>calm_setup\<close> both outcomes are
  equally frequent for both probes. \<open>even_povm\<close> is the uniform POVM the estimator starts
  from on one qubit with two outcomes.
\<close>

definition computational_kets :: "cmat list" where
  "computational_kets = [[[1], [0]], [[0], [1]]]"

definition swing_setup :: QDTCalibrationSetup where
  "swing_setup = QDTCalibrationSetup_init 1 computational_kets [[7/8, 1/8], [1/8, 7/8]]"

definition calm_setup :: QDTCalibrationSetup where
  "calm_setup = QDTCalibrationSetup_init 1 computational_kets [[1/2, 1/2], [1/2, 1/2]]"

definition even_povm :: "cmat list" where
  "even_povm = [[[1/2, 0], [0, 1/2]], [[1/2, 0], [0, 1/2]]]"

definition odd_povm :: "cmat list" where
  "odd_povm = [[[49/50, 0], [0, 1/50]], [[1/50, 0], [0, 49/50]]]"

definition swing_invariant :: "mle_state \<Rightarrow> bool" where
  "swing_invariant s =
     ((st_povm s = even_povm \<or> st_povm s = odd_povm)
      \<and> (st_current_difference s = 1 \<or> st_current_difference s = 24 / 25)
      \<and> (st_threshold s = 1 / 1000000 \<or> st_threshold s = 1 / 10000 \<or> st_threshold s = 1 / 1000))"

definition quiet_state :: "nat \<Rightarrow> mle_state" where
  "quiet_state k = \<lparr>st_i = k, st_povm = even_povm, st_last_step_povm = [],
                    st_current_difference = 1, st_threshold = 1 / 1000000\<rparr>"

definition settled_state :: mle_state where
  "settled_state = \<lparr>st_i = 50, st_povm = even_povm, st_last_step_povm = even_povm,
                     st_current_difference = 0, st_threshold = 1 / 1000000\<rparr>"

section \<open>Properties of the closest probability vector\<close>

lemma add_to_prefix_eq:
  "k \<le> length p \<Longrightarrow> add_to_prefix k c p = map (\<lambda>x. (fst x, snd x + c)) (take k p) @ drop k p"
proof (induction k)
  case 0 then show ?case by (simp add: add_to_prefix_def)
next
  case (Suc k)
  then have k: "k < length p" by simp
  have "add_to_prefix (Suc k) c p = (add_to_prefix k c p)[k := (fst (add_to_prefix k c p ! k), snd (add_to_prefix k c p ! k) + c)]"
    by (simp add: add_to_prefix_def)
  also have "add_to_prefix k c p = map (\<lambda>x. (fst x, snd x + c)) (take k p) @ drop k p"
    using Suc by simp
  finally show ?case using k
    by (simp add: list_update_append nth_append take_Suc_conv_app_nth Cons_nth_drop_Suc[symmetric] del: upt_Suc)
qed

lemma sum_list_add_const: "sum_list (map (\<lambda>x. snd x + c) xs) = sum_list (map snd xs) + real (length xs) * c"
  by (induction xs) (auto simp: algebra_simps)

lemma sum_list_snd_zero: "\<forall>x \<in> set xs. snd x = (0::real) \<Longrightarrow> sum_list (map snd xs) = 0"
  by (induction xs) auto

lemma closest_loop_props:
  assumes "k \<le> length p"
    and "\<forall>j. k \<le> j \<and> j < length p \<longrightarrow> snd (p ! j) = 0"
    and "\<forall>j j'. j \<le> j' \<and> j' < k \<longrightarrow> snd (p ! j') \<le> snd (p ! j)"
    and "a \<le> 0"
    and "0 \<le> a + sum_list (map snd (take k p))"
  shows "map fst (closest_loop k a p) = map fst p
       \<and> (\<forall>x \<in> set (closest_loop k a p). 0 \<le> snd x)
       \<and> sum_list (map snd (closest_loop k a p)) = a + sum_list (map snd (take k p))"
  using assms
proof (induction k arbitrary: a p)
  case 0
  then have z: "\<forall>j < length p. snd (p ! j) = 0" and a0: "a = 0" by auto
  have "\<forall>x \<in> set p. snd x = 0" using z by (metis in_set_conv_nth)
  then have "sum_list (map snd p) = 0" by (rule sum_list_snd_zero)
  with a0 \<open>\<forall>x \<in> set p. snd x = 0\<close> show ?case by simp
next
  case (Suc i)
  let ?mu = "snd (p ! i)"
  have i: "i < length p" using Suc.prems(1) by simp
  have tk: "take (Suc i) p = take i p @ [p ! i]" using i by (simp add: take_Suc_conv_app_nth)
  show ?case
  proof (cases "?mu + a / real (i + 1) < 0")
    case True
    let ?p' = "p[i := (fst (p ! i), 0)]"
    let ?a' = "a + ?mu"
    have 1: "i \<le> length ?p'" using i by simp
    have 2: "\<forall>j. i \<le> j \<and> j < length ?p' \<longrightarrow> snd (?p' ! j) = 0"
      using Suc.prems(2) i by (auto simp: nth_list_update Suc_le_eq)
    have 3: "\<forall>j j'. j \<le> j' \<and> j' < i \<longrightarrow> snd (?p' ! j') \<le> snd (?p' ! j)"
      using Suc.prems(3) by (auto simp: nth_list_update)
    have "?mu < - a / real (i + 1)" using True by simp
    also have "\<dots> \<le> - a" using Suc.prems(4) by (simp add: field_simps mult_nonpos_nonneg)
    finally have 4: "?a' \<le> 0" by simp
    have 5: "0 \<le> ?a' + sum_list (map snd (take i ?p'))" using Suc.prems(5) tk by simp
    from Suc.IH[OF 1 2 3 4 5] True i tk show ?thesis
      by (simp add: map_update list_update_same_conv)
  next
    case False
    let ?c = "a / real (i + 1)"
    have r: "closest_loop (Suc i) a p = map (\<lambda>x. (fst x, snd x + ?c)) (take (Suc i) p) @ drop (Suc i) p"
      using False Suc.prems(1) by (simp add: add_to_prefix_eq Let_def del: take_Suc_conv_app_nth)
    have f: "map fst (closest_loop (Suc i) a p) = map fst p"
    proof -
      have "map fst (closest_loop (Suc i) a p) = map fst (take (Suc i) p) @ map fst (drop (Suc i) p)"
        unfolding r by (simp add: comp_def del: take_Suc_conv_app_nth)
      also have "\<dots> = map fst (take (Suc i) p @ drop (Suc i) p)" by (simp only: map_append)
      finally show ?thesis by (simp only: append_take_drop_id)
    qed
    have dz: "\<forall>x \<in> set (drop (Suc i) p). snd x = 0"
    proof
      fix x assume "x \<in> set (drop (Suc i) p)"
      then obtain j where "j < length p - Suc i" "x = p ! (Suc i + j)" by (auto simp: in_set_conv_nth)
      then show "snd x = 0" using Suc.prems(2) by auto
    qed
    have nn: "\<forall>x \<in> set (take (Suc i) p). 0 \<le> snd x + ?c"
    proof
      fix x assume "x \<in> set (take (Suc i) p)"
      then obtain j where "j < Suc i" "x = p ! j" using i by (auto simp: in_set_conv_nth)
      then have "?mu \<le> snd x" using Suc.prems(3) by auto
      with False show "0 \<le> snd x + ?c" by simp
    qed
    have s: "sum_list (map snd (closest_loop (Suc i) a p)) = a + sum_list (map snd (take (Suc i) p))"
    proof -
      have "sum_list (map snd (drop (Suc i) p)) = 0" using dz by (rule sum_list_snd_zero)
      moreover have "length (take (Suc i) p) = Suc i" using i by simp
      ultimately show ?thesis unfolding r
        by (simp add: comp_def sum_list_add_const del: take_Suc_conv_app_nth)
    qed
    show ?thesis using f s nn dz unfolding r by auto
  qed
qed

lemma enumerate_snd: "map snd (map (\<lambda>i. (i, v ! i)) [0..<length v]) = v"
  by (simp add: comp_def map_nth)

lemma enumerate_fst: "map fst (map (\<lambda>i. (i, v ! i)) [0..<length v]) = [0..<length v]"
  by (simp add: comp_def)

lemma sum_list_snd_mset: "mset xs = mset ys \<Longrightarrow> sum_list (map snd xs) = (sum_list (map snd ys) :: real)"
  by (metis mset_map sum_mset_sum_list)

lemma map_nth_fun: "map (\<lambda>i. f (xs ! i)) [0..<length xs] = map f xs"
proof -
  have "map f xs = map f (map ((!) xs) [0..<length xs])" by (simp only: map_nth)
  then show ?thesis by (simp add: comp_def)
qed

lemma sorted_neg_snd_descending:
  assumes "sorted (map (\<lambda>x. - snd x) (ps :: (nat \<times> real) list))"
  shows "\<forall>j j'. j \<le> j' \<and> j' < length ps \<longrightarrow> snd (ps ! j') \<le> snd (ps ! j)"
proof (intro allI impI)
  fix j j' assume h: "j \<le> j' \<and> j' < length ps"
  then have "map (\<lambda>x. - snd x) ps ! j \<le> map (\<lambda>x. - snd x) ps ! j'"
    using assms by (simp add: sorted_iff_nth_mono del: nth_map)
  with h show "snd (ps ! j') \<le> snd (ps ! j)" by simp
qed

lemma length_add_to_prefix: "length (add_to_prefix k c p) = length p"
  by (induction k) (simp_all add: add_to_prefix_def)

lemma length_closest_loop: "length (closest_loop k a p) = length p"
  by (induction k arbitrary: a p) (simp_all add: Let_def length_add_to_prefix)

lemma find_closest_prob_vector_unfold:
  "find_closest_prob_vector v =
     map snd (sort_key fst (closest_loop (length v) 0
       (sort_key (\<lambda>x. - snd x) (map (\<lambda>i. (i, v ! i)) [0..<length v]))))"
proof -
  let ?r = "closest_loop (length v) 0
       (sort_key (\<lambda>x. - snd x) (map (\<lambda>i. (i, v ! i)) [0..<length v]))"
  have "length (sort_key fst ?r) = length v" by (simp add: length_closest_loop)
  then have "map (\<lambda>i. snd (sort_key fst ?r ! i)) [0..<length v] = map snd (sort_key fst ?r)"
    using map_nth_fun[of snd "sort_key fst ?r"] by simp
  then show ?thesis by (simp add: find_closest_prob_vector_def Let_def)
qed

lemma find_closest_prob_vector_sum_one:
  assumes "sum_list v = 1"
  shows "length (find_closest_prob_vector v) = length v"
    and "\<forall>x \<in> set (find_closest_prob_vector v). 0 \<le> x"
    and "sum_list (find_closest_prob_vector v) = 1"
proof -
  let ?p1 = "map (\<lambda>i. (i, v ! i)) [0..<length v]"
  let ?ps = "sort_key (\<lambda>x. - snd x) ?p1"
  let ?r = "closest_loop (length v) 0 ?ps"
  have len: "length ?ps = length v" by simp
  have sum_ps: "sum_list (map snd ?ps) = 1"
    using sum_list_snd_mset[of ?ps ?p1] assms by (simp only: mset_sort enumerate_snd)
  have desc: "\<forall>j j'. j \<le> j' \<and> j' < length v \<longrightarrow> snd (?ps ! j') \<le> snd (?ps ! j)"
  proof -
    have "sorted (map (\<lambda>x. - snd x) ?ps)" by (rule sorted_sort_key)
    from sorted_neg_snd_descending[OF this] len show ?thesis by simp
  qed
  have props: "map fst ?r = map fst ?ps \<and> (\<forall>x \<in> set ?r. 0 \<le> snd x)
       \<and> sum_list (map snd ?r) = 0 + sum_list (map snd (take (length v) ?ps))"
    by (rule closest_loop_props) (use len desc sum_ps in simp_all)
  then have nn: "\<forall>x \<in> set ?r. 0 \<le> snd x" and sr: "sum_list (map snd ?r) = 1"
    using sum_ps len by simp_all
  show "length (find_closest_prob_vector v) = length v"
    by (simp add: find_closest_prob_vector_unfold length_closest_loop)
  show "\<forall>x \<in> set (find_closest_prob_vector v). 0 \<le> x"
    using nn by (simp add: find_closest_prob_vector_unfold)
  show "sum_list (find_closest_prob_vector v) = 1"
    using sum_list_snd_mset[of "sort_key fst ?r" ?r] sr
    by (simp add: find_closest_prob_vector_unfold)
qed

lemma add_to_prefix_zero: "k \<le> length p \<Longrightarrow> add_to_prefix k 0 p = p"
  by (simp add: add_to_prefix_eq)

lemma closest_loop_nonneg:
  assumes "\<forall>x \<in> set p. 0 \<le> snd x"
  shows "closest_loop (length p) 0 p = p"
proof (cases "length p")
  case 0 then show ?thesis by simp
next
  case (Suc i)
  then have "p ! i \<in> set p" by simp
  then have "0 \<le> snd (p ! i)" using assms by blast
  then show ?thesis using Suc add_to_prefix_zero[of "Suc i" p] by (simp add: Let_def)
qed

lemma filter_key_singleton:
  assumes "distinct (map f xs)" "k \<in> set xs"
  shows "filter (\<lambda>x. f k = f x) xs = [k]"
  using assms
proof (induction xs)
  case Nil then show ?case by simp
next
  case (Cons x xs)
  show ?case
  proof (cases "x = k")
    case True
    then have "\<forall>y \<in> set xs. f k \<noteq> f y" using Cons.prems(1) by auto
    then have "filter (\<lambda>x. f k = f x) xs = []" by (simp add: filter_empty_conv)
    with True show ?thesis by simp
  next
    case False
    then have "k \<in> set xs" using Cons.prems(2) by simp
    then have "f x \<noteq> f k" using Cons.prems(1) by auto
    with Cons \<open>k \<in> set xs\<close> show ?thesis by simp
  qed
qed

lemma sort_key_restores:
  assumes "mset ys = mset xs" "sorted (map f xs)" "distinct (map f xs)"
  shows "sort_key f ys = xs"
proof (rule properties_for_sort_key)
  show "mset xs = mset ys" using assms(1) by simp
  show "sorted (map f xs)" by fact
  fix k assume k: "k \<in> set xs"
  have "mset (map f ys) = mset (map f xs)" using assms(1) by simp
  then have dy: "distinct (map f ys)" using assms(3) by (metis mset_eq_imp_distinct_iff)
  have "k \<in> set ys" using k assms(1) by (metis mset_eq_setD)
  then show "filter (\<lambda>x. f k = f x) xs = filter (\<lambda>x. f k = f x) ys"
    using filter_key_singleton[OF assms(3) k] filter_key_singleton[OF dy] by simp
qed

lemma find_closest_prob_vector_fixes_nonneg:
  assumes "\<forall>x \<in> set v. 0 \<le> x"
  shows "find_closest_prob_vector v = v"
proof -
  let ?p1 = "map (\<lambda>i. (i, v ! i)) [0..<length v]"
  let ?ps = "sort_key (\<lambda>x. - snd x) ?p1"
  have "set ?ps = set ?p1" by simp
  then have "\<forall>x \<in> set ?ps. 0 \<le> snd x" using assms by auto
  then have "closest_loop (length ?ps) 0 ?ps = ?ps" by (rule closest_loop_nonneg)
  then have r: "closest_loop (length v) 0 ?ps = ?ps" by simp
  have "sort_key fst ?ps = ?p1"
    by (rule sort_key_restores) (simp_all only: mset_sort enumerate_fst sorted_upt distinct_upt)
  then show ?thesis
    by (simp only: find_closest_prob_vector_unfold r enumerate_snd)
qed

text \<open>
  Claim C4. For every real vector whose entries sum to one, \<^verbatim>\<open>find_closest_prob_vector\<close>
  returns a vector of the same length, without negative entries, that sums to one; on
  \<open>[0.6, 0.6, -0.2]\<close> it returns \<open>[0.5, 0.5, 0.0]\<close>.
\<close>

theorem find_closest_prob_vector_simplex:
  "(sum_list v = 1 \<longrightarrow>
      length (find_closest_prob_vector v) = length v
      \<and> list_all (\<lambda>x. 0 \<le> x) (find_closest_prob_vector v)
      \<and> sum_list (find_closest_prob_vector v) = 1)
   \<and> find_closest_prob_vector [6/10, 6/10, -2/10] = [5/10, 5/10, 0]"
proof (intro conjI impI)
  assume s: "sum_list v = 1"
  show "length (find_closest_prob_vector v) = length v"
    by (rule find_closest_prob_vector_sum_one(1)[OF s])
  show "list_all (\<lambda>x. 0 \<le> x) (find_closest_prob_vector v)"
    using find_closest_prob_vector_sum_one(2)[OF s] by (simp add: list_all_iff)
  show "sum_list (find_closest_prob_vector v) = 1"
    by (rule find_closest_prob_vector_sum_one(3)[OF s])
next
  show "find_closest_prob_vector [6/10, 6/10, -2/10] = [5/10, 5/10, 0]"
    by (simp add: find_closest_prob_vector_def Let_def add_to_prefix_def upt_rec numeral_nat)
qed

theorem find_closest_prob_vector_simplex_witness:
  "sum_list [3/2, -1, 1/2 :: real] = 1
   \<and> length (find_closest_prob_vector [3/2, -1, 1/2]) = 3
   \<and> list_all (\<lambda>x. 0 \<le> x) (find_closest_prob_vector [3/2, -1, 1/2])
   \<and> sum_list (find_closest_prob_vector [3/2, -1, 1/2]) = 1"
  using find_closest_prob_vector_simplex [of "[3/2, -1, 1/2]"] by simp

text \<open>
  Claim C9. A vector that is already a probability vector (no negative entry, sum one)
  is returned unchanged: the same entries in the same order.
\<close>

theorem find_closest_prob_vector_idempotent:
  "is_probability_vector v \<Longrightarrow> find_closest_prob_vector v = v"
  by (rule find_closest_prob_vector_fixes_nonneg) (simp add: is_probability_vector_def list_all_iff)

theorem find_closest_prob_vector_idempotent_witness:
  "is_probability_vector [1/4, 0, 3/4]
   \<and> find_closest_prob_vector [1/4, 0, 3/4] = [1/4, 0, 3/4]"
proof -
  have h: "is_probability_vector [1/4, 0, 3/4]" by (simp add: is_probability_vector_def)
  from h find_closest_prob_vector_idempotent [OF h] show ?thesis by simp
qed

section \<open>Properties of the qubit permutation\<close>

lemma int_base2_snoc: "int_base2 (s @ [c]) = 2 * int_base2 s + (if c = CHR ''1'' then 1 else 0)"
  by (simp add: int_base2_def)

lemma int_base2_Nil: "int_base2 [] = 0"
  by (simp add: int_base2_def)

lemma int_base2_bit_char: "b < 2 \<Longrightarrow> int_base2 [bit_char b] = b"
  by (auto simp: int_base2_def bit_char_def)

lemma int_base2_bin_digits: "int_base2 (bin_digits x) = x"
proof (induction x rule: bin_digits.induct)
  case (1 x)
  show ?case
  proof (cases "x < 2")
    case True
    then show ?thesis by (subst bin_digits.simps) (simp add: int_base2_bit_char)
  next
    case False
    then have "int_base2 (bin_digits (x div 2)) = x div 2" using 1 by simp
    moreover have "(if bit_char (x mod 2) = CHR ''1'' then 1 else 0) = x mod 2"
      by (auto simp: bit_char_def)
    ultimately show ?thesis using False
      by (subst bin_digits.simps) (simp add: int_base2_snoc)
  qed
qed

lemma int_base2_zeros: "int_base2 (replicate k CHR ''0'' @ s) = int_base2 s"
proof -
  have "foldl (\<lambda>acc c. 2 * acc + (if c = CHR ''1'' then 1 else 0)) (0::nat) (replicate k CHR ''0'') = 0"
    by (induction k) simp_all
  then show ?thesis by (simp add: int_base2_def)
qed

lemma int_base2_zfill: "int_base2 (zfill n (bin_digits x)) = x"
  by (simp only: zfill_def int_base2_zeros int_base2_bin_digits)

lemma length_bin_digits: "x < 2 ^ n \<Longrightarrow> 0 < n \<Longrightarrow> length (bin_digits x) \<le> n"
proof (induction x arbitrary: n rule: bin_digits.induct)
  case (1 x)
  show ?case
  proof (cases "x < 2")
    case True
    then show ?thesis using "1.prems" by (subst bin_digits.simps) simp
  next
    case False
    obtain m where n: "n = Suc m" using "1.prems"(2) by (cases n) auto
    have "m \<noteq> 0" using False "1.prems"(1) n by (cases m) auto
    moreover have "x div 2 < 2 ^ m" using "1.prems"(1) n by auto
    ultimately have "length (bin_digits (x div 2)) \<le> m" using "1.IH"[OF False, of m] by simp
    then show ?thesis using False n
      by (subst bin_digits.simps) (simp)
  qed
qed

lemma length_zfill: "length s \<le> n \<Longrightarrow> length (zfill n s) = n"
  by (simp add: zfill_def)

lemma bitstring_bin_digits: "bitstring (bin_digits x)"
proof (induction x rule: bin_digits.induct)
  case (1 x)
  show ?case
  proof (cases "x < 2")
    case True then show ?thesis by (subst bin_digits.simps) (simp add: bitstring_def bit_char_def)
  next
    case False
    then show ?thesis using 1
      by (subst bin_digits.simps) (simp add: bitstring_def bit_char_def)
  qed
qed

lemma bitstring_zfill: "bitstring s \<Longrightarrow> bitstring (zfill n s)"
proof -
  assume s: "bitstring s"
  have "bitstring (replicate k CHR ''0'')" for k
    by (induction k) (simp_all add: bitstring_def)
  with s show ?thesis by (simp add: bitstring_def zfill_def)
qed

lemma int_base2_bound: "int_base2 s < 2 ^ length s"
proof (induction s rule: rev_induct)
  case Nil show ?case by (simp add: int_base2_Nil)
next
  case (snoc c s)
  then show ?case by (simp add: int_base2_snoc)
qed

lemma int_base2_inj:
  "length s = length t \<Longrightarrow> bitstring s \<Longrightarrow> bitstring t \<Longrightarrow> int_base2 s = int_base2 t \<Longrightarrow> s = t"
proof (induction s arbitrary: t rule: rev_induct)
  case Nil then show ?case by simp
next
  case (snoc c s)
  then obtain d t' where t: "t = t' @ [d]" by (cases t rule: rev_cases) auto
  have bs: "bitstring s" "bitstring t'" and cd: "c = CHR ''0'' \<or> c = CHR ''1''" "d = CHR ''0'' \<or> d = CHR ''1''"
    using snoc.prems t by (auto simp: bitstring_def)
  have eq: "2 * int_base2 s + (if c = CHR ''1'' then 1 else 0) = 2 * int_base2 t' + (if d = CHR ''1'' then 1 else 0)"
    using snoc.prems(4) t by (simp add: int_base2_snoc)
  have "c = d"
  proof (rule ccontr)
    assume "c \<noteq> d"
    then have "2 * int_base2 s + 1 = 2 * int_base2 t' \<or> 2 * int_base2 s = 2 * int_base2 t' + 1"
      using eq cd by (auto split: if_splits)
    then show False by presburger
  qed
  moreover have "int_base2 s = int_base2 t'" using eq \<open>c = d\<close> by simp
  ultimately show ?case using snoc.IH[of t'] snoc.prems(1) bs t by simp
qed

lemma length_label: "x < 2 ^ n \<Longrightarrow> 0 < n \<Longrightarrow> length (zfill n (bin_digits x)) = n"
  by (simp add: length_zfill length_bin_digits)

lemma bitstring_label: "bitstring (zfill n (bin_digits x))"
  by (simp add: bitstring_zfill bitstring_bin_digits)

lemma length_swap_chars: "length (swap_chars i j s) = length s"
  by (simp add: swap_chars_def)

lemma bitstring_swap_chars:
  assumes "bitstring s" "i < length s" "j < length s"
  shows "bitstring (swap_chars i j s)"
proof -
  have "\<forall>c \<in> set s. c = CHR ''0'' \<or> c = CHR ''1''" using assms(1) by (simp add: bitstring_def list_all_iff)
  moreover have "set (swap_chars i j s) \<subseteq> set s"
    using assms(2,3) unfolding swap_chars_def
    by (meson nth_mem order_trans set_update_subsetI subset_refl)
  ultimately show ?thesis by (auto simp: bitstring_def list_all_iff)
qed

lemma swap_chars_twice:
  assumes "i < length s" "j < length s"
  shows "swap_chars i j (swap_chars i j s) = s"
  using assms by (auto simp: swap_chars_def list_eq_iff_nth_eq nth_list_update)

lemma swap_chars_same: "i < length s \<Longrightarrow> swap_chars i i s = s"
  by (simp add: swap_chars_def)

lemma swapped_label_less:
  assumes "x < 2 ^ n" "0 < n"
  shows "swapped_label n i j x < 2 ^ n"
proof -
  have "length (swap_chars i j (zfill n (bin_digits x))) = n"
    using assms by (simp add: length_swap_chars length_label)
  then show ?thesis using int_base2_bound[of "swap_chars i j (zfill n (bin_digits x))"]
    by (simp add: swapped_label_def)
qed

lemma label_of_swapped:
  assumes "x < 2 ^ n" "0 < n" "i < n" "j < n"
  shows "zfill n (bin_digits (swapped_label n i j x)) = swap_chars i j (zfill n (bin_digits x))"
proof (rule int_base2_inj)
  let ?s = "zfill n (bin_digits x)"
  have ls: "length ?s = n" using assms by (simp add: length_label)
  show "length (zfill n (bin_digits (swapped_label n i j x))) = length (swap_chars i j ?s)"
    using assms ls by (simp add: length_label swapped_label_less length_swap_chars)
  show "bitstring (zfill n (bin_digits (swapped_label n i j x)))" by (rule bitstring_label)
  show "bitstring (swap_chars i j ?s)"
    using assms ls by (intro bitstring_swap_chars bitstring_label) simp_all
  show "int_base2 (zfill n (bin_digits (swapped_label n i j x))) = int_base2 (swap_chars i j ?s)"
    by (simp add: int_base2_zfill swapped_label_def)
qed

lemma swapped_label_involution:
  assumes "x < 2 ^ n" "0 < n" "i < n" "j < n"
  shows "swapped_label n i j (swapped_label n i j x) = x"
proof -
  have ls: "length (zfill n (bin_digits x)) = n" using assms by (simp add: length_label)
  have "swapped_label n i j (swapped_label n i j x)
        = int_base2 (swap_chars i j (swap_chars i j (zfill n (bin_digits x))))"
    using label_of_swapped[OF assms] by (simp add: swapped_label_def)
  also have "\<dots> = int_base2 (zfill n (bin_digits x))"
    using assms ls by (simp add: swap_chars_twice)
  finally show ?thesis by (simp add: int_base2_zfill)
qed

lemma swapped_label_same:
  assumes "x < 2 ^ n" "0 < n" "i < n"
  shows "swapped_label n i i x = x"
  using assms by (simp add: swapped_label_def swap_chars_same length_label int_base2_zfill)

lemma qubit_swap_fold:
  "qubit_swap n (Suc i, Suc j) = fold (swap_step (swapped_label n i j)) [0..<2 ^ n] (eye (2 ^ n))"
  unfolding qubit_swap_def Let_def
  by (rule fold_cong) (auto simp: swap_step_def swapped_label_def swap_chars_def fun_eq_iff)

lemma is_mat_iff: "is_mat r c A \<longleftrightarrow> length A = r \<and> (\<forall>i<r. length (A ! i) = c)"
  by (auto simp: is_mat_def list_all_length)

lemma mat_eqI:
  assumes "is_mat r c A" "is_mat r c B" "\<And>i j. i < r \<Longrightarrow> j < c \<Longrightarrow> A ! i ! j = B ! i ! j"
  shows "A = B"
proof (rule nth_equalityI)
  show "length A = length B" using assms(1,2) by (simp add: is_mat_iff)
  fix i assume "i < length A"
  then have i: "i < r" using assms(1) by (simp add: is_mat_iff)
  show "A ! i = B ! i"
  proof (rule nth_equalityI)
    show "length (A ! i) = length (B ! i)" using assms(1,2) i by (simp add: is_mat_iff)
    fix j assume "j < length (A ! i)"
    then have "j < c" using assms(1) i by (simp add: is_mat_iff)
    then show "A ! i ! j = B ! i ! j" using i assms(3) by simp
  qed
qed

lemma is_mat_eye: "is_mat n n (eye n)"
  by (simp add: is_mat_iff eye_def)

lemma eye_nth: "a < n \<Longrightarrow> b < n \<Longrightarrow> eye n ! a ! b = (if a = b then 1 else 0)"
  by (simp add: eye_def)

lemma is_mat_mat_set: "is_mat r c T \<Longrightarrow> is_mat r c (mat_set T i j v)"
proof -
  assume T: "is_mat r c T"
  have "length (T[i := (T ! i)[j := v]] ! k) = c" if "k < r" for k
    using that T by (cases "k = i") (simp_all add: is_mat_iff)
  then show ?thesis using T by (simp add: is_mat_iff mat_set_def)
qed

lemma mat_set_nth:
  "is_mat r c T \<Longrightarrow> i < r \<Longrightarrow> j < c \<Longrightarrow> a < r \<Longrightarrow> b < c \<Longrightarrow>
   mat_set T i j v ! a ! b = (if a = i \<and> b = j then v else T ! a ! b)"
  by (auto simp: is_mat_iff mat_set_def nth_list_update)

lemma is_mat_swap_step: "is_mat D D T \<Longrightarrow> is_mat D D (swap_step f x T)"
  by (simp add: swap_step_def is_mat_mat_set)

lemma swap_step_nth:
  assumes T: "is_mat D D T" and x: "x < D" and fx: "f x < D" and a: "a < D" and b: "b < D"
  shows "swap_step f x T ! a ! b =
      (if f x = x then T ! a ! b
       else if (a = x \<and> b = f x) \<or> (a = f x \<and> b = x) then 1
       else if (a = x \<and> b = x) \<or> (a = f x \<and> b = f x) then 0
       else T ! a ! b)"
proof -
  let ?T1 = "mat_set T x x 0"
  let ?T2 = "mat_set ?T1 (f x) (f x) 0"
  let ?T3 = "mat_set ?T2 (f x) x 1"
  have m1: "is_mat D D ?T1" and m2: "is_mat D D ?T2" and m3: "is_mat D D ?T3"
    using T by (simp_all add: is_mat_mat_set)
  show ?thesis
    using x fx a b
    by (auto simp: swap_step_def mat_set_nth[OF m3] mat_set_nth[OF m2] mat_set_nth[OF m1] mat_set_nth[OF T])
qed

lemma swap_fold_entries:
  assumes inv: "\<And>x. x < D \<Longrightarrow> f x < D \<and> f (f x) = x"
  shows "k \<le> D \<Longrightarrow> is_mat D D (fold (swap_step f) [0..<k] (eye D)) \<and>
    (\<forall>a<D. \<forall>b<D. fold (swap_step f) [0..<k] (eye D) ! a ! b =
       (if a = b then (if (a < k \<or> f a < k) \<and> f a \<noteq> a then 0 else 1)
        else (if b = f a \<and> (a < k \<or> b < k) then 1 else 0)))"
proof (induction k)
  case 0
  show ?case by (simp add: is_mat_eye eye_nth)
next
  case (Suc k)
  let ?T = "fold (swap_step f) [0..<k] (eye D)"
  have k: "k < D" using Suc.prems by simp
  have T: "is_mat D D ?T" and ent: "\<And>a b. a < D \<Longrightarrow> b < D \<Longrightarrow> ?T ! a ! b =
       (if a = b then (if (a < k \<or> f a < k) \<and> f a \<noteq> a then 0 else 1)
        else (if b = f a \<and> (a < k \<or> b < k) then 1 else 0))"
    using Suc.IH k by simp_all
  have fk: "f k < D" "f (f k) = k" using inv[OF k] by simp_all
  have step: "fold (swap_step f) [0..<Suc k] (eye D) = swap_step f k ?T" by simp
  show ?case unfolding step
  proof (intro conjI allI impI)
    show "is_mat D D (swap_step f k ?T)" by (rule is_mat_swap_step[OF T])
    fix a b assume a: "a < D" and b: "b < D"
    have fa: "f a < D" "f (f a) = a" using inv[OF a] by simp_all
    have fb: "f b < D" "f (f b) = b" using inv[OF b] by simp_all
    show "swap_step f k ?T ! a ! b =
       (if a = b then (if (a < Suc k \<or> f a < Suc k) \<and> f a \<noteq> a then 0 else 1)
        else (if b = f a \<and> (a < Suc k \<or> b < Suc k) then 1 else 0))"
      unfolding swap_step_nth[of D ?T k f a b, OF T k fk(1) a b] ent[OF a b]
      using fa fb fk by (auto simp: less_Suc_eq)
  qed
qed

lemma qubit_swap_entries:
  assumes "0 < n" "i < n" "j < n"
  shows "is_mat (2 ^ n) (2 ^ n) (qubit_swap n (Suc i, Suc j))"
    and "a < 2 ^ n \<Longrightarrow> b < 2 ^ n \<Longrightarrow>
         qubit_swap n (Suc i, Suc j) ! a ! b = (if b = swapped_label n i j a then 1 else 0)"
proof -
  have inv: "\<And>x. x < 2 ^ n \<Longrightarrow> swapped_label n i j x < 2 ^ n
       \<and> swapped_label n i j (swapped_label n i j x) = x"
    using assms by (simp add: swapped_label_less swapped_label_involution)
  note e = swap_fold_entries[of "2 ^ n" "swapped_label n i j" "2 ^ n", OF inv, simplified, folded qubit_swap_fold]
  show "is_mat (2 ^ n) (2 ^ n) (qubit_swap n (Suc i, Suc j))" using e by simp
  assume ab: "a < 2 ^ n" "b < 2 ^ n"
  then have "swapped_label n i j a < 2 ^ n" using inv by simp
  then show "qubit_swap n (Suc i, Suc j) ! a ! b = (if b = swapped_label n i j a then 1 else 0)"
    using e ab by auto
qed

lemma ncols_is_mat: "is_mat r c B \<Longrightarrow> 0 < r \<Longrightarrow> ncols B = c"
  by (cases B) (auto simp: is_mat_def ncols_def)

lemma is_mat_mat_mul:
  assumes "length A = r" "is_mat m c B" "0 < m"
  shows "is_mat r c (mat_mul A B)"
proof -
  have "ncols B = c" using assms(2,3) by (rule ncols_is_mat)
  then show ?thesis using assms(1) by (simp add: is_mat_iff mat_mul_def)
qed

lemma mat_mul_nth:
  assumes "length A = r" "is_mat m c B" "0 < m" "a < r" "b < c"
  shows "mat_mul A B ! a ! b = (\<Sum>k = 0..<m. A ! a ! k * B ! k ! b)"
proof -
  have "ncols B = c" using assms(2,3) by (rule ncols_is_mat)
  moreover have "nrows B = m" using assms(2) by (simp add: nrows_def is_mat_iff)
  ultimately show ?thesis using assms(1,4,5)
    by (simp add: mat_mul_def interv_sum_list_conv_sum_set_nat)
qed

lemma perm_mul_left:
  assumes P: "is_mat D D P" and M: "is_mat D D M"
    and ent: "\<And>a k. a < D \<Longrightarrow> k < D \<Longrightarrow> P ! a ! k = (if k = f a then 1 else 0)"
    and f: "\<And>x. x < D \<Longrightarrow> f x < D"
    and a: "a < D" and b: "b < D"
  shows "mat_mul P M ! a ! b = M ! f a ! b"
proof -
  have D: "0 < D" using a by simp
  have "mat_mul P M ! a ! b = (\<Sum>k = 0..<D. P ! a ! k * M ! k ! b)"
    using P M D a b by (intro mat_mul_nth) (simp_all add: is_mat_iff)
  also have "\<dots> = (\<Sum>k = 0..<D. if k = f a then M ! k ! b else 0)"
    by (rule sum.cong) (simp_all add: ent a)
  also have "\<dots> = M ! f a ! b" using f[OF a] by (simp add: sum.delta)
  finally show ?thesis .
qed

lemma perm_mul_right:
  assumes P: "is_mat D D P" and M: "is_mat D D M"
    and ent: "\<And>a k. a < D \<Longrightarrow> k < D \<Longrightarrow> P ! a ! k = (if k = f a then 1 else 0)"
    and f: "\<And>x. x < D \<Longrightarrow> f x < D \<and> f (f x) = x"
    and a: "a < D" and b: "b < D"
  shows "mat_mul M P ! a ! b = M ! a ! f b"
proof -
  have D: "0 < D" using a by simp
  have "mat_mul M P ! a ! b = (\<Sum>k = 0..<D. M ! a ! k * P ! k ! b)"
    using P M D a b by (intro mat_mul_nth) (simp_all add: is_mat_iff)
  also have "\<dots> = (\<Sum>k = 0..<D. if k = f b then M ! a ! k else 0)"
  proof (rule sum.cong)
    fix k assume "k \<in> {0..<D}"
    then have k: "k < D" by simp
    have "b = f k \<longleftrightarrow> k = f b" using f[OF k] f[OF b] by auto
    then show "M ! a ! k * P ! k ! b = (if k = f b then M ! a ! k else 0)"
      using ent[OF k b] by simp
  qed simp
  also have "\<dots> = M ! a ! f b" using f[OF b] by (simp add: sum.delta)
  finally show ?thesis .
qed

lemma permute_matrix_entries:
  assumes n: "0 < n" "i < n" "j < n" and M: "is_mat (2 ^ n) (2 ^ n) M"
  shows "is_mat (2 ^ n) (2 ^ n) (permute_matrix M n (Suc i, Suc j))"
    and "a < 2 ^ n \<Longrightarrow> b < 2 ^ n \<Longrightarrow>
         permute_matrix M n (Suc i, Suc j) ! a ! b = M ! swapped_label n i j a ! swapped_label n i j b"
proof -
  let ?P = "qubit_swap n (Suc i, Suc j)"
  let ?f = "swapped_label n i j"
  have P: "is_mat (2 ^ n) (2 ^ n) ?P" by (rule qubit_swap_entries(1)[OF n])
  have ent: "\<And>a k. a < 2 ^ n \<Longrightarrow> k < 2 ^ n \<Longrightarrow> ?P ! a ! k = (if k = ?f a then 1 else 0)"
    by (rule qubit_swap_entries(2)[OF n])
  have f: "\<And>x. x < 2 ^ n \<Longrightarrow> ?f x < 2 ^ n \<and> ?f (?f x) = x"
    using n by (simp add: swapped_label_less swapped_label_involution)
  have PM: "is_mat (2 ^ n) (2 ^ n) (mat_mul ?P M)"
    using P M by (intro is_mat_mat_mul[of _ _ "2 ^ n"]) (simp_all add: is_mat_iff)
  show "is_mat (2 ^ n) (2 ^ n) (permute_matrix M n (Suc i, Suc j))"
    unfolding permute_matrix_def Let_def
    using PM P by (intro is_mat_mat_mul[of _ _ "2 ^ n"]) (simp_all add: is_mat_iff)
  assume a: "a < 2 ^ n" and b: "b < 2 ^ n"
  have "permute_matrix M n (Suc i, Suc j) ! a ! b = mat_mul ?P M ! a ! ?f b"
    unfolding permute_matrix_def Let_def
    by (rule perm_mul_right[OF P PM ent f a b])
  also have "\<dots> = M ! ?f a ! ?f b"
    using f[OF b] f by (intro perm_mul_left[OF P M ent _ a]) simp_all
  finally show "permute_matrix M n (Suc i, Suc j) ! a ! b = M ! ?f a ! ?f b" .
qed

lemma permute_matrix_twice:
  assumes n: "0 < n" "i < n" "j < n" and M: "is_mat (2 ^ n) (2 ^ n) M"
  shows "permute_matrix (permute_matrix M n (Suc i, Suc j)) n (Suc i, Suc j) = M"
proof (rule mat_eqI[of "2 ^ n" "2 ^ n"])
  let ?f = "swapped_label n i j"
  have M': "is_mat (2 ^ n) (2 ^ n) (permute_matrix M n (Suc i, Suc j))"
    by (rule permute_matrix_entries(1)[OF n M])
  show "is_mat (2 ^ n) (2 ^ n) (permute_matrix (permute_matrix M n (Suc i, Suc j)) n (Suc i, Suc j))"
    by (rule permute_matrix_entries(1)[OF n M'])
  show "is_mat (2 ^ n) (2 ^ n) M" by fact
  fix a b :: nat assume a: "a < 2 ^ n" and b: "b < 2 ^ n"
  have fa: "?f a < 2 ^ n" "?f (?f a) = a" and fb: "?f b < 2 ^ n" "?f (?f b) = b"
    using n a b by (simp_all add: swapped_label_less swapped_label_involution)
  show "permute_matrix (permute_matrix M n (Suc i, Suc j)) n (Suc i, Suc j) ! a ! b = M ! a ! b"
    using permute_matrix_entries(2)[OF n M' a b] permute_matrix_entries(2)[OF n M fa(1) fb(1)] fa fb
    by simp
qed

lemma qubit_swap_squared:
  assumes n: "0 < n" "i < n" "j < n"
  shows "mat_mul (qubit_swap n (Suc i, Suc j)) (qubit_swap n (Suc i, Suc j)) = eye (2 ^ n)"
proof (rule mat_eqI[of "2 ^ n" "2 ^ n"])
  let ?P = "qubit_swap n (Suc i, Suc j)"
  let ?f = "swapped_label n i j"
  have P: "is_mat (2 ^ n) (2 ^ n) ?P" by (rule qubit_swap_entries(1)[OF n])
  have ent: "\<And>a k. a < 2 ^ n \<Longrightarrow> k < 2 ^ n \<Longrightarrow> ?P ! a ! k = (if k = ?f a then 1 else 0)"
    by (rule qubit_swap_entries(2)[OF n])
  show "is_mat (2 ^ n) (2 ^ n) (mat_mul ?P ?P)"
    using P by (intro is_mat_mat_mul[of _ _ "2 ^ n"]) (simp_all add: is_mat_iff)
  show "is_mat (2 ^ n) (2 ^ n) (eye (2 ^ n))" by (rule is_mat_eye)
  fix a b :: nat assume a: "a < 2 ^ n" and b: "b < 2 ^ n"
  have fa: "?f a < 2 ^ n" "?f (?f a) = a" and fb: "?f b < 2 ^ n" "?f (?f b) = b"
    using n a b by (simp_all add: swapped_label_less swapped_label_involution)
  have "mat_mul ?P ?P ! a ! b = ?P ! ?f a ! b"
    using n by (intro perm_mul_left[OF P P ent _ a b]) (simp_all add: swapped_label_less)
  also have "\<dots> = (if b = a then 1 else 0)" using ent[OF fa(1) b] fa by simp
  finally show "mat_mul ?P ?P ! a ! b = eye (2 ^ n) ! a ! b" using a b by (auto simp: eye_nth)
qed

lemma qubit_swap_same:
  assumes n: "0 < n" "i < n"
  shows "qubit_swap n (Suc i, Suc i) = eye (2 ^ n)"
proof (rule mat_eqI[of "2 ^ n" "2 ^ n"])
  show "is_mat (2 ^ n) (2 ^ n) (qubit_swap n (Suc i, Suc i))" by (rule qubit_swap_entries(1)[OF n n(2)])
  show "is_mat (2 ^ n) (2 ^ n) (eye (2 ^ n))" by (rule is_mat_eye)
  fix a b :: nat assume a: "a < 2 ^ n" and b: "b < 2 ^ n"
  show "qubit_swap n (Suc i, Suc i) ! a ! b = eye (2 ^ n) ! a ! b"
    using qubit_swap_entries(2)[OF n n(2) a b] swapped_label_same[OF a n] a b
    by (auto simp: eye_nth)
qed

lemma permute_matrix_same:
  assumes n: "0 < n" "i < n" and M: "is_mat (2 ^ n) (2 ^ n) M"
  shows "permute_matrix M n (Suc i, Suc i) = M"
proof (rule mat_eqI[of "2 ^ n" "2 ^ n"])
  show "is_mat (2 ^ n) (2 ^ n) (permute_matrix M n (Suc i, Suc i))"
    by (rule permute_matrix_entries(1)[OF n n(2) M])
  show "is_mat (2 ^ n) (2 ^ n) M" by fact
  fix a b :: nat assume a: "a < 2 ^ n" and b: "b < 2 ^ n"
  show "permute_matrix M n (Suc i, Suc i) ! a ! b = M ! a ! b"
    using permute_matrix_entries(2)[OF n n(2) M a b] swapped_label_same[OF a n] swapped_label_same[OF b n]
    by simp
qed


text \<open>
  Claim C7. For every \<open>n \<ge> 1\<close>, every pair of positions \<open>i, j\<close> between 1 and \<open>n\<close> and every
  \<open>2^n \<times> 2^n\<close> matrix \<open>M\<close>, applying \<^verbatim>\<open>permute_matrix\<close> with the transposition \<open>(i, j)\<close> twice
  gives \<open>M\<close> back, and the matrix \<open>P\<close> built by \<^verbatim>\<open>qubit_swap\<close> satisfies \<open>P \<cdot> P = Identity\<close>.
\<close>

theorem permute_matrix_involution:
  assumes "1 \<le> n" and "1 \<le> i" and "i \<le> n" and "1 \<le> j" and "j \<le> n"
    and "is_mat (2 ^ n) (2 ^ n) M"
  shows "permute_matrix (permute_matrix M n (i, j)) n (i, j) = M
       \<and> mat_mul (qubit_swap n (i, j)) (qubit_swap n (i, j)) = eye (2 ^ n)"
proof -
  obtain i' j' where ij: "i = Suc i'" "j = Suc j'"
    using assms(2,4) by (metis Suc_le_D One_nat_def)
  have n: "0 < n" "i' < n" "j' < n" using assms(1,3,5) ij by simp_all
  show ?thesis unfolding ij
    using permute_matrix_twice[OF n assms(6)] qubit_swap_squared[OF n] by simp
qed

theorem permute_matrix_involution_witness:
  "is_mat (2 ^ 2) (2 ^ 2) [[1, 2, 3, 4], [5, 6, 7, 8], [9, 10, 11, 12], [13, 14, 15, 16]]
   \<and> permute_matrix (permute_matrix [[1, 2, 3, 4], [5, 6, 7, 8], [9, 10, 11, 12], [13, 14, 15, 16]]
        2 (1, 2)) 2 (1, 2) = [[1, 2, 3, 4], [5, 6, 7, 8], [9, 10, 11, 12], [13, 14, 15, 16]]
   \<and> mat_mul (qubit_swap 2 (1, 2)) (qubit_swap 2 (1, 2)) = eye (2 ^ 2)"
proof -
  have h: "is_mat (2 ^ 2) (2 ^ 2) [[1, 2, 3, 4], [5, 6, 7, 8], [9, 10, 11, 12], [13, 14, 15, 16]]"
    by (simp add: is_mat_def)
  from h permute_matrix_involution [of 2 1 2, OF _ _ _ _ _ h] show ?thesis by simp
qed

text \<open>
  Claim C10. For every \<open>n \<ge> 1\<close> and every position \<open>i\<close> between 1 and \<open>n\<close>,
  \<^verbatim>\<open>qubit_swap(n, (i, i))\<close> is the \<open>2^n \<times> 2^n\<close> identity matrix, and so is the result for the
  default argument \<open>(1, 1)\<close>; \<^verbatim>\<open>permute_matrix\<close> with such a transposition returns its
  \<open>2^n \<times> 2^n\<close> input matrix unchanged.
\<close>

theorem qubit_swap_same_position:
  assumes "1 \<le> n" and "1 \<le> i" and "i \<le> n"
  shows "qubit_swap n (i, i) = eye (2 ^ n)
       \<and> qubit_swap_default n = eye (2 ^ n)
       \<and> (is_mat (2 ^ n) (2 ^ n) M \<longrightarrow> permute_matrix M n (i, i) = M)"
proof -
  obtain i' where i: "i = Suc i'" using assms(2) by (metis Suc_le_D One_nat_def)
  have n: "0 < n" "i' < n" using assms(1,3) i by simp_all
  have "qubit_swap n (Suc 0, Suc 0) = eye (2 ^ n)" using n(1) by (intro qubit_swap_same) simp_all
  then show ?thesis unfolding i
    using qubit_swap_same[OF n] permute_matrix_same[OF n] by (simp add: qubit_swap_default_def)
qed

theorem qubit_swap_same_position_witness:
  "qubit_swap 2 (2, 2) = eye (2 ^ 2)
   \<and> qubit_swap_default 2 = eye (2 ^ 2)
   \<and> is_mat (2 ^ 2) (2 ^ 2) [[1, 2, 3, 4], [5, 6, 7, 8], [9, 10, 11, 12], [13, 14, 15, 16]]
   \<and> permute_matrix [[1, 2, 3, 4], [5, 6, 7, 8], [9, 10, 11, 12], [13, 14, 15, 16]] 2 (2, 2)
       = [[1, 2, 3, 4], [5, 6, 7, 8], [9, 10, 11, 12], [13, 14, 15, 16]]"
proof -
  have h: "is_mat (2 ^ 2) (2 ^ 2) [[1, 2, 3, 4], [5, 6, 7, 8], [9, 10, 11, 12], [13, 14, 15, 16]]"
    by (simp add: is_mat_def)
  from h qubit_swap_same_position [of 2 2 "[[1, 2, 3, 4], [5, 6, 7, 8], [9, 10, 11, 12], [13, 14, 15, 16]]"]
  show ?thesis by simp
qed

section \<open>Properties of the composition of POVMs\<close>

lemma qs12: "qubit_swap 2 (1, 2) = [[1,0,0,0],[0,0,1,0],[0,1,0,0],[0,0,0,1]]"
  by code_simp

lemma r10: "reorder_classical_register [1, 0] = [''00'', ''10'', ''01'', ''11'']"
  by code_simp

lemma r01: "reorder_classical_register [0, 1] = [''00'', ''01'', ''10'', ''11'']"
  by code_simp

lemma st1: "sort_things [p0, p1, p2, p3] [''00'', ''10'', ''01'', ''11''] = [p0, p2, p1, p3]"
  by (simp add: sort_things_def)

lemma is_mat_2_2E:
  assumes "is_mat 2 2 M"
  obtains a b c d where "M = [[a, b], [c, d]]"
proof -
  from assms have l: "length M = 2" and r: "\<forall>row \<in> set M. length row = 2"
    by (simp_all add: is_mat_def list_all_iff)
  from l obtain r0 r1 where M: "M = [r0, r1]"
    by (metis (no_types, opaque_lifting) One_nat_def Suc_1 length_0_conv length_Suc_conv)
  from r M have "length r0 = 2" "length r1 = 2" by simp_all
  then obtain a b c d where "r0 = [a, b]" "r1 = [c, d]"
    by (metis (no_types, opaque_lifting) One_nat_def Suc_1 length_0_conv length_Suc_conv)
  with M that show thesis by simp
qed

lemma list2E:
  assumes "length xs = 2"
  obtains x y where "xs = [x, y]"
  using assms by (metis (no_types, opaque_lifting) One_nat_def Suc_1 length_0_conv length_Suc_conv)

lemma upt4: "[0..<4] = [0, 1, 2, 3]" "[0..<2] = [0, 1]"
  by (simp_all add: upt_rec numeral_nat)

lemma kron_eye_right:
  "kron [[a, b], [c, d]] (eye 2) = [[a, 0, b, 0], [0, a, 0, b], [c, 0, d, 0], [0, c, 0, d]]"
  by (simp add: kron_def eye_def upt4)

lemma kron_eye_left:
  "kron (eye 2) [[a, b], [c, d]] = [[a, b, 0, 0], [c, d, 0, 0], [0, 0, a, b], [0, 0, c, d]]"
  by (simp add: kron_def eye_def upt4)

lemma permute_front:
  "permute_matrix [[a, 0, b, 0], [0, a, 0, b], [c, 0, d, 0], [0, c, 0, d]] 2 (1, 2)
     = [[a, b, 0, 0], [c, d, 0, 0], [0, 0, a, b], [0, 0, c, d]]"
  unfolding permute_matrix_def Let_def qs12
  by (simp add: mat_mul_def nrows_def ncols_def upt4)

lemma kron_2_2:
  "kron [[a, b], [c, d]] [[e, f], [g, h]] =
     [[a * e, a * f, b * e, b * f], [a * g, a * h, b * g, b * h],
      [c * e, c * f, d * e, d * f], [c * g, c * h, d * g, d * h]]"
  by (simp add: kron_def)

lemma mul_left_right:
  "mat_mul [[a, b, 0, 0], [c, d, 0, 0], [0, 0, a, b], [0, 0, c, d]]
           [[e, 0, f, 0], [0, e, 0, f], [g, 0, h, 0], [0, g, 0, h]]
     = kron [[e, f], [g, h]] [[a, b], [c, d]]"
  by (simp add: mat_mul_def nrows_def ncols_def upt4 kron_2_2 mult.commute)

lemma mul_right_left:
  "mat_mul [[e, 0, f, 0], [0, e, 0, f], [g, 0, h, 0], [0, g, 0, h]]
           [[a, b, 0, 0], [c, d, 0, 0], [0, 0, a, b], [0, 0, c, d]]
     = kron [[e, f], [g, h]] [[a, b], [c, d]]"
  by (simp add: mat_mul_def nrows_def ncols_def upt4 kron_2_2)

lemma cartesian_two: "cartesian_increasing [xs, ys] = concat (map (\<lambda>x. map (\<lambda>y. [x, y]) ys) xs)"
  by (simp add: comp_def)

lemma join_povms_swapped:
  "join_povms [A, B] [[Suc 0], [0]] =
     sort_things
       (concat (map (\<lambda>x. map (\<lambda>y. mat_mul x y) (map (\<lambda>M. kron M (eye 2)) B))
                    (map (\<lambda>M. permute_matrix (kron M (eye 2)) 2 (1, 2)) A)))
       [''00'', ''10'', ''01'', ''11'']"
proof -
  have r: "reorder_classical_register [Suc 0, 0] = [''00'', ''10'', ''01'', ''11'']"
    using r10 by simp
  show ?thesis
    by (simp add: join_povms_def Let_def upt4 calculate_tensor_to_increasing_list_def cartesian_two
        gtc_matrix_product_counting_function_def r comp_def map_concat numeral_2_eq_2)
qed

lemma join_povms_straight:
  "join_povms [B, A] [[0], [Suc 0]] =
     sort_things
       (concat (map (\<lambda>x. map (\<lambda>y. mat_mul x y) (map (\<lambda>M. permute_matrix (kron M (eye 2)) 2 (1, 2)) A))
                    (map (\<lambda>M. kron M (eye 2)) B)))
       [''00'', ''01'', ''10'', ''11'']"
proof -
  have r: "reorder_classical_register [0, Suc 0] = [''00'', ''01'', ''10'', ''11'']"
    using r01 by simp
  show ?thesis
    by (simp add: join_povms_def Let_def upt4 calculate_tensor_to_increasing_list_def cartesian_two
        gtc_matrix_product_counting_function_def r comp_def map_concat numeral_2_eq_2)
qed

lemma st_id: "sort_things [p0, p1, p2, p3] [''00'', ''01'', ''10'', ''11''] = [p0, p1, p2, p3]"
  by (simp add: sort_things_def)

lemma front_effect:
  assumes "is_mat 2 2 M"
  shows "permute_matrix (kron M (eye 2)) 2 (Suc 0, 2) = kron (eye 2) M"
proof -
  from assms obtain a b c d where "M = [[a, b], [c, d]]" by (rule is_mat_2_2E)
  then show ?thesis using permute_front[of a b c d]
    by (simp only: kron_eye_right kron_eye_left One_nat_def)
qed

lemma mul_placed:
  assumes "is_mat 2 2 X" "is_mat 2 2 Y"
  shows "mat_mul (kron (eye 2) X) (kron Y (eye 2)) = kron Y X"
    and "mat_mul (kron Y (eye 2)) (kron (eye 2) X) = kron Y X"
proof -
  from assms(1) obtain a b c d where X: "X = [[a, b], [c, d]]" by (rule is_mat_2_2E)
  from assms(2) obtain e f g h where Y: "Y = [[e, f], [g, h]]" by (rule is_mat_2_2E)
  show "mat_mul (kron (eye 2) X) (kron Y (eye 2)) = kron Y X"
    unfolding X Y by (simp only: kron_eye_right kron_eye_left mul_left_right)
  show "mat_mul (kron Y (eye 2)) (kron (eye 2) X) = kron Y X"
    unfolding X Y by (simp only: kron_eye_right kron_eye_left mul_right_left)
qed

lemma join_povms_two_outcomes:
  assumes "is_mat 2 2 A0" "is_mat 2 2 A1" "is_mat 2 2 B0" "is_mat 2 2 B1"
  shows "join_povms [[A0, A1], [B0, B1]] [[Suc 0], [0]] = [kron B0 A0, kron B0 A1, kron B1 A0, kron B1 A1]"
    and "join_povms [[B0, B1], [A0, A1]] [[0], [Suc 0]] = [kron B0 A0, kron B0 A1, kron B1 A0, kron B1 A1]"
  unfolding join_povms_swapped join_povms_straight
  using assms by (simp_all add: front_effect mul_placed st1 st_id)

lemma st1_six: "sort_things [p0, p1, p2, p3, p4, p5] [''00'', ''10'', ''01'', ''11''] = [p0, p2, p1, p3]"
  by (simp add: sort_things_def)

lemma st_id_six: "sort_things [p0, p1, p2, p3, p4, p5] [''00'', ''01'', ''10'', ''11''] = [p0, p1, p2, p3]"
  by (simp add: sort_things_def)

text \<open>
  Claim C3, as the code has it. A single-qubit POVM of this program has one effect for
  each value of the qubit's classical bit. For every pair \<open>A\<close>, \<open>B\<close> of such POVMs (two
  \<open>2 \<times> 2\<close> effects each), \<^verbatim>\<open>join_povms([A, B], [[1], [0]])\<close> and
  \<^verbatim>\<open>join_povms([B, A], [[0], [1]])\<close> are the same list: outcome \<open>2b + a\<close> has the effect
  \<open>B\<^sub>b \<otimes> A\<^sub>a\<close> in both.
\<close>

theorem join_povms_order_invariant:
  assumes "length A = 2" and "length B = 2"
    and "list_all (is_mat 2 2) A" and "list_all (is_mat 2 2) B"
  shows "join_povms [A, B] [[1], [0]] = join_povms [B, A] [[0], [1]]
       \<and> join_povms [A, B] [[1], [0]] =
           [kron (B ! 0) (A ! 0), kron (B ! 0) (A ! 1), kron (B ! 1) (A ! 0), kron (B ! 1) (A ! 1)]"
proof -
  from assms(1) obtain A0 A1 where A: "A = [A0, A1]" by (rule list2E)
  from assms(2) obtain B0 B1 where B: "B = [B0, B1]" by (rule list2E)
  have m: "is_mat 2 2 A0" "is_mat 2 2 A1" "is_mat 2 2 B0" "is_mat 2 2 B1"
    using assms(3,4) A B by simp_all
  show ?thesis unfolding A B One_nat_def
    by (simp add: join_povms_two_outcomes[OF m])
qed

theorem join_povms_order_invariant_witness:
  "length [[[1, 0], [0, 0]], [[0, 0], [0, 1 :: complex]]] = 2
   \<and> length [[[1/2, 1/2], [1/2, 1/2]], [[1/2, - 1/2], [- 1/2, 1/2 :: complex]]] = 2
   \<and> list_all (is_mat 2 2) [[[1, 0], [0, 0]], [[0, 0], [0, 1]]]
   \<and> list_all (is_mat 2 2) [[[1/2, 1/2], [1/2, 1/2]], [[1/2, - 1/2], [- 1/2, 1/2]]]
   \<and> join_povms [[[[1, 0], [0, 0]], [[0, 0], [0, 1]]],
                   [[[1/2, 1/2], [1/2, 1/2]], [[1/2, - 1/2], [- 1/2, 1/2]]]] [[1], [0]]
     = join_povms [[[[1/2, 1/2], [1/2, 1/2]], [[1/2, - 1/2], [- 1/2, 1/2]]],
                   [[[1, 0], [0, 0]], [[0, 0], [0, 1]]]] [[0], [1]]"
proof -
  have h: "list_all (is_mat 2 2) [[[1, 0], [0, 0]], [[0, 0], [0, 1]]]"
    "list_all (is_mat 2 2) [[[1/2, 1/2], [1/2, 1/2]], [[1/2, - 1/2], [- 1/2, 1/2]]]"
    by (simp_all add: is_mat_def)
  from h join_povms_order_invariant [OF _ _ h] show ?thesis by simp
qed

text \<open>
  Claim C3 as stated ranges over every pair of single-qubit POVMs. A POVM with three
  effects on one qubit is a list of three \<open>2 \<times> 2\<close> matrices that sum to the identity;
  \<^verbatim>\<open>join_povms\<close> pairs the six products with the four register labels, \<^verbatim>\<open>zip\<close> drops the last
  two, and the two calls keep different products: the effects of outcome 2 differ.
\<close>

theorem join_povms_three_outcomes_differ:
  "join_povms [[[[1/2, 0], [0, 0]], [[0, 0], [0, 1/2]], [[1/2, 0], [0, 1/2]]],
               [[[1, 0], [0, 0]], [[0, 0], [0, 1]]]] [[1], [0]] ! 2
   \<noteq> join_povms [[[[1, 0], [0, 0]], [[0, 0], [0, 1]]],
                 [[[1/2, 0], [0, 0]], [[0, 0], [0, 1/2]], [[1/2, 0], [0, 1/2]]]] [[0], [1]] ! 2"
proof -
  have m: "is_mat 2 2 [[1/2, 0], [0, 0]]" "is_mat 2 2 [[0, 0], [0, 1/2]]" "is_mat 2 2 [[1/2, 0], [0, 1/2]]"
    "is_mat 2 2 [[1, 0], [0, 0]]" "is_mat 2 2 [[0, 0], [0, 1]]"
    by (simp_all add: is_mat_def)
  show ?thesis unfolding One_nat_def join_povms_swapped join_povms_straight
    by (simp add: front_effect mul_placed m st1_six st_id_six kron_2_2)
qed

section \<open>Properties of the estimator\<close>

lemma r_operator_loop_eq:
  "r_operator_loop m_m j freqs states xs m_r =
     Inr (foldl mat_add m_r
       (map (\<lambda>s. mat_scale (complex_of_real (freqs ! s ! j) / trace (mat_mul m_m (states ! s))) (states ! s))
            (filter (\<lambda>s. trace (mat_mul m_m (states ! s)) \<noteq> 0) xs)))"
  by (induction xs arbitrary: m_r) (simp_all add: np_divide_def Let_def)

lemma get_r_operator_eq:
  "get_r_operator m_m j freqs states =
     Inr (if frobenius_norm (r_operator_spec m_m j freqs states) = 0
          then zeros (nrows (states ! 0)) (nrows (states ! 0))
          else r_operator_spec m_m j freqs states)"
  by (simp add: get_r_operator_def r_operator_loop_eq r_operator_spec_def Let_def)

lemma mat_mul_eye_left:
  assumes "is_mat d c A" "0 < d"
  shows "mat_mul (eye d) A = A"
proof (rule mat_eqI[of d c])
  show "is_mat d c (mat_mul (eye d) A)"
    using assms by (intro is_mat_mat_mul[of _ _ d]) (simp_all add: eye_def)
  show "is_mat d c A" by fact
  fix i j assume i: "i < d" and j: "j < c"
  have "mat_mul (eye d) A ! i ! j = (\<Sum>k = 0..<d. eye d ! i ! k * A ! k ! j)"
    using assms i j by (intro mat_mul_nth) (simp_all add: eye_def)
  also have "\<dots> = (\<Sum>k = 0..<d. if k = i then A ! k ! j else 0)"
    by (rule sum.cong) (auto simp: eye_nth i)
  also have "\<dots> = A ! i ! j" using i by (simp add: sum.delta)
  finally show "mat_mul (eye d) A ! i ! j = A ! i ! j" .
qed

lemma mat_mul_eye_right:
  assumes "is_mat r d A" "0 < d"
  shows "mat_mul A (eye d) = A"
proof (rule mat_eqI[of r d])
  have l: "length A = r" using assms(1) by (simp add: is_mat_iff)
  show "is_mat r d (mat_mul A (eye d))"
    using l assms(2) by (intro is_mat_mat_mul[of _ _ d]) (simp_all add: is_mat_eye)
  show "is_mat r d A" by fact
  fix i j assume i: "i < r" and j: "j < d"
  have "mat_mul A (eye d) ! i ! j = (\<Sum>k = 0..<d. A ! i ! k * eye d ! k ! j)"
    using l assms(2) i j by (intro mat_mul_nth) (simp_all add: is_mat_eye)
  also have "\<dots> = (\<Sum>k = 0..<d. if k = j then A ! i ! k else 0)"
    by (rule sum.cong) (auto simp: eye_nth j)
  also have "\<dots> = A ! i ! j" using j by (simp add: sum.delta)
  finally show "mat_mul A (eye d) ! i ! j = A ! i ! j" .
qed

lemma fold_append_const: "fold (\<lambda>j acc. acc @ [x]) xs acc = acc @ replicate (length xs) x"
  by (induction xs arbitrary: acc) (simp_all add: replicate_append_same)

lemma initial_povm_eq:
  "initial_povm m d = replicate m (mat_div (eye d) (of_nat m))"
  by (simp add: initial_povm_def fold_append_const)

lemma mat_div_eye: "mat_div (eye d) c = mat_scale (1 / c) (eye d)"
  by (simp add: mat_div_def mat_scale_def)

lemma mat_scale_eye_nth:
  "a < d \<Longrightarrow> b < d \<Longrightarrow> mat_scale x (eye d) ! a ! b = (if a = b then x else 0)"
  by (simp add: mat_scale_def eye_def)

lemma collect_map_total:
  assumes "\<And>x. \<exists>v. f x = Inr v"
  shows "\<exists>vs. collect (map f xs) = Inr vs"
proof (induction xs)
  case Nil show ?case by simp
next
  case (Cons x xs)
  obtain v where "f x = Inr v" using assms by blast
  moreover obtain vs where "collect (map f xs) = Inr vs" using Cons by blast
  ultimately show ?case by simp
qed

lemma r_matrices_total:
  "\<exists>rs. collect (map (\<lambda>j. get_r_operator (povm ! j) j freqs states) xs) = Inr rs"
  by (rule collect_map_total) (simp add: get_r_operator_eq)

lemma mle_iteration_total: "\<exists>s'. mle_iteration la cs m s = Inr s'"
proof -
  obtain rs where "collect (map (\<lambda>j. get_r_operator (st_povm s ! j) j (frequencies_array cs) (probe_states cs)) [0..<m]) = Inr rs"
    using r_matrices_total by blast
  then show ?thesis by (simp add: mle_iteration_def Let_def)
qed

lemma mle_iteration_counter:
  assumes "mle_iteration la cs m s = Inr s'"
  shows "st_i s' = st_i s + 1"
  using assms by (auto simp: mle_iteration_def Let_def split: sum.splits if_splits)

lemma mle_iteration_threshold:
  assumes "mle_iteration la cs m s = Inr s'"
  shows "st_threshold s' =
     (if (st_i s + 1) mod 50 = 0 then st_threshold s
      else if 500000 < st_i s + 1 then 1 / 1000
      else if 100000 < st_i s + 1 then 1 / 10000
      else st_threshold s)"
  using assms by (auto simp: mle_iteration_def Let_def split: sum.splits if_splits)




lemma mle_loop_terminates:
  assumes "mle_steps la cs m n s = Inr s'" "\<bar>st_current_difference s'\<bar> < st_threshold s'"
  shows "\<exists>r. mle_loop la cs m s = Some r"
  using assms
proof (induction n arbitrary: s)
  case 0
  then show ?case by (subst mle_loop.simps) simp
next
  case (Suc n)
  show ?case
  proof (cases "st_threshold s \<le> \<bar>st_current_difference s\<bar>")
    case True
    obtain s1 where s1: "mle_iteration la cs m s = Inr s1" using mle_iteration_total by blast
    with Suc.prems(1) have "mle_steps la cs m n s1 = Inr s'" by simp
    then obtain r where "mle_loop la cs m s1 = Some r" using Suc.IH Suc.prems(2) by blast
    then show ?thesis using True s1 by (subst mle_loop.simps) simp
  next
    case False
    then show ?thesis by (subst mle_loop.simps) simp
  qed
qed

lemma mle_steps_Suc_end:
  "mle_steps la cs m (Suc n) s =
     (case mle_steps la cs m n s of Inl e \<Rightarrow> Inl e | Inr s1 \<Rightarrow> mle_iteration la cs m s1)"
proof (induction n arbitrary: s)
  case 0
  show ?case by (simp split: sum.splits)
next
  case (Suc n)
  obtain s1 where s1: "mle_iteration la cs m s = Inr s1" using mle_iteration_total by blast
  have "mle_steps la cs m (Suc (Suc n)) s = mle_steps la cs m (Suc n) s1"
    using s1 by simp
  also have "\<dots> = (case mle_steps la cs m n s1 of Inl e \<Rightarrow> Inl e | Inr s2 \<Rightarrow> mle_iteration la cs m s2)"
    by (rule Suc.IH)
  also have "mle_steps la cs m n s1 = mle_steps la cs m (Suc n) s" using s1 by simp
  finally show ?case .
qed

lemma mle_steps_staircase:
  assumes "mle_steps la cs m n s = Inr s'" "st_i s = 0"
  shows "st_i s' = n \<and> st_threshold s' =
     (if 500000 < n then 1 / 1000 else if 100000 < n then 1 / 10000 else st_threshold s)"
  using assms(1)
proof (induction n arbitrary: s')
  case 0
  then show ?case using assms(2) by simp
next
  case (Suc n)
  from Suc.prems obtain s1 where s1: "mle_steps la cs m n s = Inr s1"
    and it: "mle_iteration la cs m s1 = Inr s'"
    by (auto simp: mle_steps_Suc_end simp del: mle_steps.simps split: sum.splits)
  have ih: "st_i s1 = n" "st_threshold s1 =
     (if 500000 < n then 1 / 1000 else if 100000 < n then 1 / 10000 else st_threshold s)"
    using Suc.IH[OF s1] by simp_all
  have c: "st_i s' = Suc n" using mle_iteration_counter[OF it] ih(1) by simp
  have "(n + 1) mod 50 = 0 \<Longrightarrow> n \<noteq> 100000 \<and> n \<noteq> 500000" by presburger
  then have "st_threshold s' =
     (if 500000 < Suc n then 1 / 1000 else if 100000 < Suc n then 1 / 10000 else st_threshold s)"
    unfolding mle_iteration_threshold[OF it] ih by auto
  with c show ?case by simp
qed

lemma mle_loop_diverges:
  assumes step: "\<And>s. I s \<Longrightarrow> st_threshold s \<le> \<bar>st_current_difference s\<bar>
                          \<and> (\<exists>s'. mle_iteration la cs m s = Inr s' \<and> I s')"
    and "I s"
  shows "mle_loop la cs m s = None"
proof (rule ccontr)
  assume "mle_loop la cs m s \<noteq> None"
  then obtain r where r: "mle_loop la cs m s = Some r" by blast
  have "la = la \<and> cs = cs \<and> m = m \<longrightarrow> \<not> I s"
  proof (rule mle_loop.raw_induct[where P = "\<lambda>la' cs' m' s r. la' = la \<and> cs' = cs \<and> m' = m \<longrightarrow> \<not> I s", OF _ r])
    fix loop :: "linalg \<Rightarrow> QDTCalibrationSetup \<Rightarrow> nat \<Rightarrow> mle_state \<Rightarrow> (fault + mle_state) option"
    fix la' cs' m' s r
    assume IH: "\<And>la' cs' m' s r. loop la' cs' m' s = Some r \<Longrightarrow> la' = la \<and> cs' = cs \<and> m' = m \<longrightarrow> \<not> I s"
    assume eq: "(if st_threshold s \<le> \<bar>st_current_difference s\<bar>
      then case mle_iteration la' cs' m' s of Inl e \<Rightarrow> Some (Inl e) | Inr s' \<Rightarrow> loop la' cs' m' s'
      else Some (Inr s)) = Some r"
    show "la' = la \<and> cs' = cs \<and> m' = m \<longrightarrow> \<not> I s"
    proof (intro impI notI)
      assume p: "la' = la \<and> cs' = cs \<and> m' = m" and i: "I s"
      from step[OF i] obtain s1 where c: "st_threshold s \<le> \<bar>st_current_difference s\<bar>"
        and s1: "mle_iteration la cs m s = Inr s1" and i1: "I s1" by blast
      from eq p c s1 have "loop la cs m s1 = Some r" by simp
      from IH[OF this] i1 show False by simp
    qed
  qed
  with assms(2) show False by simp
qed

lemma mle_loop_runs:
  assumes "mle_loop la cs m s = Some r"
  shows "\<exists>n s'. mle_steps la cs m n s = Inr s' \<and> r = Inr s'
              \<and> \<bar>st_current_difference s'\<bar> < st_threshold s'"
proof (rule mle_loop.raw_induct[where P = "\<lambda>la cs m s r. \<exists>n s'. mle_steps la cs m n s = Inr s' \<and> r = Inr s'
              \<and> \<bar>st_current_difference s'\<bar> < st_threshold s'", OF _ assms])
  fix loop :: "linalg \<Rightarrow> QDTCalibrationSetup \<Rightarrow> nat \<Rightarrow> mle_state \<Rightarrow> (fault + mle_state) option"
  fix la cs m s r
  assume IH: "\<And>la cs m s r. loop la cs m s = Some r \<Longrightarrow>
      \<exists>n s'. mle_steps la cs m n s = Inr s' \<and> r = Inr s' \<and> \<bar>st_current_difference s'\<bar> < st_threshold s'"
  assume eq: "(if st_threshold s \<le> \<bar>st_current_difference s\<bar>
      then case mle_iteration la cs m s of Inl e \<Rightarrow> Some (Inl e) | Inr s' \<Rightarrow> loop la cs m s'
      else Some (Inr s)) = Some r"
  show "\<exists>n s'. mle_steps la cs m n s = Inr s' \<and> r = Inr s' \<and> \<bar>st_current_difference s'\<bar> < st_threshold s'"
  proof (cases "st_threshold s \<le> \<bar>st_current_difference s\<bar>")
    case True
    obtain s1 where s1: "mle_iteration la cs m s = Inr s1" using mle_iteration_total by blast
    with True eq have "loop la cs m s1 = Some r" by simp
    from IH[OF this] obtain n s' where "mle_steps la cs m n s1 = Inr s'" "r = Inr s'"
      "\<bar>st_current_difference s'\<bar> < st_threshold s'" by blast
    then have "mle_steps la cs m (Suc n) s = Inr s' \<and> r = Inr s' \<and> \<bar>st_current_difference s'\<bar> < st_threshold s'"
      using s1 by simp
    then show ?thesis by blast
  next
    case False
    with eq have "mle_steps la cs m 0 s = Inr s \<and> r = Inr s \<and> \<bar>st_current_difference s\<bar> < st_threshold s"
      by auto
    then show ?thesis by blast
  qed
qed

lemma mle_steps_total: "\<exists>s'. mle_steps la cs m n s = Inr s'"
proof (induction n arbitrary: s)
  case 0 show ?case by simp
next
  case (Suc n)
  obtain s1 where "mle_iteration la cs m s = Inr s1" using mle_iteration_total by blast
  then show ?case using Suc[of s1] by simp
qed

section \<open>Two runs of the estimator\<close>

lemma upt2: "[0..<2] = [0, 1]" "[0..<Suc (Suc 0)] = [0, Suc 0]"
  by (simp_all add: upt_rec numeral_nat)

lemma swing_states: "probe_states swing_setup = [[[1, 0], [0, 0]], [[0, 0], [0, 1]]]"
  by (simp add: swing_setup_def QDTCalibrationSetup_init_def get_probe_states_def
      computational_kets_def calculate_tensor_to_increasing_list_def gtc_tensor_counting_function_def
      get_density_matrix_def ket_to_bra_def conjugate_transpose_def mat_mul_def kron_def
      nrows_def ncols_def)

lemma swing_freqs: "frequencies_array swing_setup = [[7/8, 1/8], [1/8, 7/8]]"
  by (simp add: swing_setup_def QDTCalibrationSetup_init_def)

lemma csqrt_25_16: "csqrt (25 / 16) = 5 / 4"
  by (rule csqrt_unique) (simp_all add: power2_eq_square)

lemma csqrt_diag: "diag_sqrtm [[25 / 16, 0], [0, 25 / 16]] = [[5 / 4, 0], [0, 5 / 4]]"
  by (simp add: diag_sqrtm_def csqrt_25_16)

lemma r_even:
  "collect (map (\<lambda>j. get_r_operator (even_povm ! j) j [[7/8, 1/8], [1/8, 7/8]] [[[1, 0], [0, 0]], [[0, 0], [0, 1]]]) [0..<2])
     = Inr [[[7/4, 0], [0, 1/4]], [[1/4, 0], [0, 7/4]]]"
  by (simp add: upt2 get_r_operator_eq r_operator_spec_def even_povm_def trace_def mat_mul_def
      nrows_def ncols_def zeros_def mat_add_def mat_scale_def frobenius_norm_def power2_eq_square)

lemma r_odd:
  "collect (map (\<lambda>j. get_r_operator (odd_povm ! j) j [[7/8, 1/8], [1/8, 7/8]] [[[1, 0], [0, 0]], [[0, 0], [0, 1]]]) [0..<2])
     = Inr [[[25/28, 0], [0, 25/4]], [[25/4, 0], [0, 25/28]]]"
  by (simp add: upt2 get_r_operator_eq r_operator_spec_def odd_povm_def trace_def mat_mul_def
      nrows_def ncols_def zeros_def mat_add_def mat_scale_def frobenius_norm_def power2_eq_square)

lemma lagrange_even:
  "get_lagrange_matrix diag_linalg [[[7/4, 0], [0, 1/4]], [[1/4, 0], [0, 7/4]]] even_povm
     = [[5/4, 0], [0, 5/4]]"
  by (simp add: get_lagrange_matrix_def diag_linalg_def even_povm_def upt2 mat_mul_def mat_add_def
      zeros_def nrows_def ncols_def csqrt_diag)

lemma lagrange_odd:
  "get_lagrange_matrix diag_linalg [[[25/28, 0], [0, 25/4]], [[25/4, 0], [0, 25/28]]] odd_povm
     = [[5/4, 0], [0, 5/4]]"
  by (simp add: get_lagrange_matrix_def diag_linalg_def odd_povm_def upt2 mat_mul_def mat_add_def
      zeros_def nrows_def ncols_def csqrt_diag)

lemma inv_lagrange: "la_inv diag_linalg [[5/4, 0], [0, 5/4]] = Some [[4/5, 0], [0, 4/5]]"
  by (simp add: diag_linalg_def diag_inv_def nrows_def upt2)

lemma new_even:
  "map (\<lambda>j. calculate_symmetric_m diag_linalg [[5/4, 0], [0, 5/4]]
               ([[[7/4, 0], [0, 1/4]], [[1/4, 0], [0, 7/4]]] ! j) (even_povm ! j)) [0..<2] = odd_povm"
  by (simp add: calculate_symmetric_m_def inv_lagrange upt2 even_povm_def odd_povm_def mat_mul_def
      nrows_def ncols_def)

lemma new_odd:
  "map (\<lambda>j. calculate_symmetric_m diag_linalg [[5/4, 0], [0, 5/4]]
               ([[[25/28, 0], [0, 25/4]], [[25/4, 0], [0, 25/28]]] ! j) (odd_povm ! j)) [0..<2] = even_povm"
  by (simp add: calculate_symmetric_m_def inv_lagrange upt2 even_povm_def odd_povm_def mat_mul_def
      nrows_def ncols_def)

lemma swing_difference:
  "(\<Sum>k\<leftarrow>[0..<2]. la_norm2 diag_linalg (mat_sub (odd_povm ! k) (even_povm ! k))) = 24 / 25"
  "(\<Sum>k\<leftarrow>[0..<2]. la_norm2 diag_linalg (mat_sub (even_povm ! k) (odd_povm ! k))) = 24 / 25"
  by (simp_all add: diag_linalg_def diag_norm2_def mat_sub_def even_povm_def odd_povm_def upt2 nrows_def)

lemma swing_iteration_even:
  assumes "st_povm s = even_povm"
  shows "mle_iteration diag_linalg swing_setup 2 s =
     Inr (if (st_i s + 1) mod 50 = 0
          then s\<lparr>st_i := st_i s + 1, st_povm := odd_povm, st_last_step_povm := even_povm,
                 st_current_difference := 24 / 25\<rparr>
          else if 500000 < st_i s + 1
          then s\<lparr>st_i := st_i s + 1, st_povm := odd_povm, st_threshold := 1 / 1000\<rparr>
          else if 100000 < st_i s + 1
          then s\<lparr>st_i := st_i s + 1, st_povm := odd_povm, st_threshold := 1 / 10000\<rparr>
          else s\<lparr>st_i := st_i s + 1, st_povm := odd_povm\<rparr>)"
  unfolding mle_iteration_def Let_def assms swing_states swing_freqs r_even sum.case
    lagrange_even new_even
  by (simp add: swing_difference)

lemma swing_iteration_odd:
  assumes "st_povm s = odd_povm"
  shows "mle_iteration diag_linalg swing_setup 2 s =
     Inr (if (st_i s + 1) mod 50 = 0
          then s\<lparr>st_i := st_i s + 1, st_povm := even_povm, st_last_step_povm := odd_povm,
                 st_current_difference := 24 / 25\<rparr>
          else if 500000 < st_i s + 1
          then s\<lparr>st_i := st_i s + 1, st_povm := even_povm, st_threshold := 1 / 1000\<rparr>
          else if 100000 < st_i s + 1
          then s\<lparr>st_i := st_i s + 1, st_povm := even_povm, st_threshold := 1 / 10000\<rparr>
          else s\<lparr>st_i := st_i s + 1, st_povm := even_povm\<rparr>)"
  unfolding mle_iteration_def Let_def assms swing_states swing_freqs r_odd sum.case
    lagrange_odd new_odd
  by (simp add: swing_difference)

lemma swing_invariant_step:
  assumes "swing_invariant s"
  shows "st_threshold s \<le> \<bar>st_current_difference s\<bar>
       \<and> (\<exists>s'. mle_iteration diag_linalg swing_setup 2 s = Inr s' \<and> swing_invariant s')"
proof
  show "st_threshold s \<le> \<bar>st_current_difference s\<bar>"
    using assms by (auto simp: swing_invariant_def)
  show "\<exists>s'. mle_iteration diag_linalg swing_setup 2 s = Inr s' \<and> swing_invariant s'"
  proof (cases "st_povm s = even_povm")
    case True
    show ?thesis unfolding swing_iteration_even[OF True]
      using assms by (auto simp: swing_invariant_def)
  next
    case False
    then have o: "st_povm s = odd_povm" using assms by (simp add: swing_invariant_def)
    show ?thesis unfolding swing_iteration_odd[OF o]
      using assms by (auto simp: swing_invariant_def)
  qed
qed

lemma swing_initial: "initial_povm 2 2 = even_povm"
  by (simp add: initial_povm_eq mat_div_def eye_def even_povm_def upt2 numeral_2_eq_2)

lemma swing_shape: "real_ncols (frequencies_array swing_setup) = 2"
  "nrows (probe_states swing_setup ! 0) = 2"
  by (simp_all add: swing_freqs swing_states real_ncols_def nrows_def)

lemma calm_states: "probe_states calm_setup = [[[1, 0], [0, 0]], [[0, 0], [0, 1]]]"
  by (simp add: calm_setup_def QDTCalibrationSetup_init_def get_probe_states_def
      computational_kets_def calculate_tensor_to_increasing_list_def gtc_tensor_counting_function_def
      get_density_matrix_def ket_to_bra_def conjugate_transpose_def mat_mul_def kron_def
      nrows_def ncols_def)

lemma calm_freqs: "frequencies_array calm_setup = [[1/2, 1/2], [1/2, 1/2]]"
  by (simp add: calm_setup_def QDTCalibrationSetup_init_def)

lemma r_calm:
  "collect (map (\<lambda>j. get_r_operator (even_povm ! j) j [[1/2, 1/2], [1/2, 1/2]] [[[1, 0], [0, 0]], [[0, 0], [0, 1]]]) [0..<2])
     = Inr [[[1, 0], [0, 1]], [[1, 0], [0, 1]]]"
  by (simp add: upt2 get_r_operator_eq r_operator_spec_def even_povm_def trace_def mat_mul_def
      nrows_def ncols_def zeros_def mat_add_def mat_scale_def frobenius_norm_def power2_eq_square)

lemma lagrange_calm:
  "get_lagrange_matrix diag_linalg [[[1, 0], [0, 1]], [[1, 0], [0, 1]]] even_povm = [[1, 0], [0, 1]]"
  by (simp add: get_lagrange_matrix_def diag_linalg_def even_povm_def upt2 mat_mul_def mat_add_def
      zeros_def nrows_def ncols_def diag_sqrtm_def)

lemma new_calm:
  "map (\<lambda>j. calculate_symmetric_m diag_linalg [[1, 0], [0, 1]]
               ([[[1, 0], [0, 1]], [[1, 0], [0, 1]]] ! j) (even_povm ! j)) [0..<2] = even_povm"
  by (simp add: calculate_symmetric_m_def diag_linalg_def diag_inv_def upt2 even_povm_def mat_mul_def
      nrows_def ncols_def)

lemma calm_difference:
  "(\<Sum>k\<leftarrow>[0..<2]. la_norm2 diag_linalg (mat_sub (even_povm ! k) (even_povm ! k))) = 0"
  by (simp add: diag_linalg_def diag_norm2_def mat_sub_def even_povm_def upt2 nrows_def)

lemma calm_iteration:
  assumes "st_povm s = even_povm"
  shows "mle_iteration diag_linalg calm_setup 2 s =
     Inr (if (st_i s + 1) mod 50 = 0
          then s\<lparr>st_i := st_i s + 1, st_povm := even_povm, st_last_step_povm := even_povm,
                 st_current_difference := 0\<rparr>
          else if 500000 < st_i s + 1
          then s\<lparr>st_i := st_i s + 1, st_povm := even_povm, st_threshold := 1 / 1000\<rparr>
          else if 100000 < st_i s + 1
          then s\<lparr>st_i := st_i s + 1, st_povm := even_povm, st_threshold := 1 / 10000\<rparr>
          else s\<lparr>st_i := st_i s + 1, st_povm := even_povm\<rparr>)"
  unfolding mle_iteration_def Let_def assms calm_states calm_freqs r_calm sum.case
    lagrange_calm new_calm
  by (simp add: calm_difference)

lemma calm_checkpoint:
  "mle_iteration diag_linalg calm_setup 2
     \<lparr>st_i = 49, st_povm = even_povm, st_last_step_povm = [],
      st_current_difference = 1, st_threshold = 1 / 1000000\<rparr>
   = Inr \<lparr>st_i = 50, st_povm = even_povm, st_last_step_povm = even_povm,
          st_current_difference = 0, st_threshold = 1 / 1000000\<rparr>"
  by (subst calm_iteration) simp_all



lemma calm_fiftieth: "mle_iteration diag_linalg calm_setup 2 (quiet_state 49) = Inr settled_state"
  using calm_checkpoint by (simp add: quiet_state_def settled_state_def)


section \<open>The claims about the estimator\<close>

text \<open>
  Claim C5. For every effect \<open>M\<^sub>j\<close>, frequencies array and list of probe states (with a
  probe state for every row of frequencies, all of one dimension \<open>d\<close>), the matrix returned
  by \<^verbatim>\<open>__get_r_operator\<close> is the sum over exactly the probe states \<open>s\<close> with
  \<open>Tr(M\<^sub>j \<rho>\<^sub>s) \<noteq> 0\<close> of \<open>[f(s, j) / Tr(M\<^sub>j \<rho>\<^sub>s)] \<rho>\<^sub>s\<close>; no division by zero occurs; and when that
  sum has norm zero the zero matrix of shape \<open>d \<times> d\<close> is returned.
\<close>

theorem get_r_operator_skips_zero_expectation:
  assumes "0 < d" and "is_mat d d m_m" and "states \<noteq> []" and "list_all (is_mat d d) states"
    and "length freqs \<le> length states"
  shows "get_r_operator m_m j freqs states =
           Inr (if frobenius_norm (r_operator_spec m_m j freqs states) = 0 then zeros d d
                else r_operator_spec m_m j freqs states)
       \<and> get_r_operator m_m j freqs states \<noteq> Inl ZeroDivision"
proof -
  have "states ! 0 \<in> set states" using assms(3) by simp
  then have "is_mat d d (states ! 0)" using assms(4) by (simp add: list_all_iff)
  then have "nrows (states ! 0) = d" by (simp add: nrows_def is_mat_iff)
  then show ?thesis by (simp add: get_r_operator_eq)
qed

theorem get_r_operator_skips_zero_expectation_witness:
  "(0::nat) < 2 \<and> is_mat 2 2 [[1, 0], [0, 0]]
   \<and> [[[1, 0], [0, 0]], [[0, 0], [0, 1 :: complex]]] \<noteq> []
   \<and> list_all (is_mat 2 2) [[[1, 0], [0, 0]], [[0, 0], [0, 1]]]
   \<and> length [[7/8, 1/8], [1/8, 7/8 :: real]] \<le> length [[[1, 0], [0, 0]], [[0, 0], [0, 1 :: complex]]]
   \<and> trace (mat_mul [[1, 0], [0, 0]] [[0, 0], [0, 1]]) = 0
   \<and> get_r_operator [[1, 0], [0, 0]] 0 [[7/8, 1/8], [1/8, 7/8]] [[[1, 0], [0, 0]], [[0, 0], [0, 1]]]
       = Inr [[7/8, 0], [0, 0]]"
proof -
  have h: "is_mat 2 2 [[1, 0], [0, 0]]" "list_all (is_mat 2 2) [[[1, 0], [0, 0]], [[0, 0], [0, 1]]]"
    by (simp_all add: is_mat_def)
  have t: "trace (mat_mul [[1, 0], [0, 0]] [[0, 0], [0, 1]]) = 0"
    "trace (mat_mul [[1, 0], [0, 0]] [[1, 0], [0, 0]]) = 1"
    by (simp_all add: trace_def mat_mul_def nrows_def ncols_def upt2)
  have s: "r_operator_spec [[1, 0], [0, 0]] 0 [[7/8, 1/8], [1/8, 7/8]] [[[1, 0], [0, 0]], [[0, 0], [0, 1]]]
             = [[7/8, 0], [0, 0]]"
    by (simp add: r_operator_spec_def upt2 t zeros_def mat_add_def mat_scale_def nrows_def)
  have n: "frobenius_norm [[7/8, 0], [0, 0]] \<noteq> 0"
    by (simp add: frobenius_norm_def)
  from h t(1) n
    get_r_operator_skips_zero_expectation [of 2 "[[1, 0], [0, 0]]" "[[[1, 0], [0, 0]], [[0, 0], [0, 1]]]"
      "[[7/8, 1/8], [1/8, 7/8]]" 0, OF _ h(1) _ h(2)]
  show ?thesis by (simp add: s)
qed

text \<open>
  Claim C6. When the inversion of the Lagrange matrix raises \<^verbatim>\<open>LinAlgError\<close>,
  \<^verbatim>\<open>__calculate_symmetric_m\<close> takes the identity matrix for the inverse and returns the
  product \<open>L\<^sup>-\<^sup>1 R M R L\<^sup>-\<^sup>1\<close> computed with it, which is \<open>R M R\<close> for matrices of one dimension; it
  returns a matrix and raises nothing.
\<close>

theorem calculate_symmetric_m_identity_fallback:
  assumes "la_inv la m_lagrange_matrix = None"
  shows "calculate_symmetric_m la m_lagrange_matrix m_r m_m =
           mat_mul (mat_mul (mat_mul (mat_mul (eye (nrows m_lagrange_matrix)) m_r) m_m) m_r)
             (eye (nrows m_lagrange_matrix))
       \<and> (0 < d \<and> is_mat d d m_lagrange_matrix \<and> is_mat d d m_r \<and> is_mat d d m_m \<longrightarrow>
            calculate_symmetric_m la m_lagrange_matrix m_r m_m = mat_mul (mat_mul m_r m_m) m_r)"
proof (intro conjI impI)
  show e: "calculate_symmetric_m la m_lagrange_matrix m_r m_m =
           mat_mul (mat_mul (mat_mul (mat_mul (eye (nrows m_lagrange_matrix)) m_r) m_m) m_r)
             (eye (nrows m_lagrange_matrix))"
    using assms by (simp add: calculate_symmetric_m_def Let_def)
  assume h: "0 < d \<and> is_mat d d m_lagrange_matrix \<and> is_mat d d m_r \<and> is_mat d d m_m"
  then have n: "nrows m_lagrange_matrix = d" by (simp add: nrows_def is_mat_iff)
  have l: "length m_r = d" using h by (simp add: is_mat_iff)
  have "is_mat d d (mat_mul m_r m_m)"
    using h l by (intro is_mat_mat_mul[of _ _ d]) simp_all
  then have "is_mat d d (mat_mul (mat_mul m_r m_m) m_r)"
    using h by (intro is_mat_mat_mul[of _ _ d]) (simp_all add: is_mat_iff)
  then have r: "mat_mul (mat_mul (mat_mul m_r m_m) m_r) (eye d) = mat_mul (mat_mul m_r m_m) m_r"
    using h by (intro mat_mul_eye_right[of d d]) simp_all
  have "mat_mul (eye d) m_r = m_r"
    using h by (intro mat_mul_eye_left[of d d]) simp_all
  then show "calculate_symmetric_m la m_lagrange_matrix m_r m_m = mat_mul (mat_mul m_r m_m) m_r"
    unfolding e n using r by simp
qed

theorem calculate_symmetric_m_identity_fallback_witness:
  "la_inv diag_linalg [[1, 0], [0, 0]] = None
   \<and> (0::nat) < 2 \<and> is_mat 2 2 [[1, 0], [0, 0]] \<and> is_mat 2 2 [[2, 0], [0, 3]]
   \<and> is_mat 2 2 [[1/2, 0], [0, 1/2]]
   \<and> calculate_symmetric_m diag_linalg [[1, 0], [0, 0]] [[2, 0], [0, 3]] [[1/2, 0], [0, 1/2]]
       = mat_mul (mat_mul [[2, 0], [0, 3]] [[1/2, 0], [0, 1/2]]) [[2, 0], [0, 3]]
   \<and> calculate_symmetric_m diag_linalg [[1, 0], [0, 0]] [[2, 0], [0, 3]] [[1/2, 0], [0, 1/2]]
       = [[2, 0], [0, 9/2]]"
proof -
  have i: "la_inv diag_linalg [[1, 0], [0, 0]] = None"
    by (simp add: diag_linalg_def diag_inv_def nrows_def upt2)
  have h: "is_mat 2 2 [[1, 0], [0, 0]]" "is_mat 2 2 [[2, 0], [0, 3]]" "is_mat 2 2 [[1/2, 0], [0, 1/2]]"
    by (simp_all add: is_mat_def)
  have p: "mat_mul (mat_mul [[2, 0], [0, 3]] [[1/2, 0], [0, 1/2]]) [[2, 0], [0, 3]] = [[2, 0], [0, 9/2]]"
    by (simp add: mat_mul_def nrows_def ncols_def upt2)
  from i h p
    calculate_symmetric_m_identity_fallback [OF i, of "[[2, 0], [0, 3]]" "[[1/2, 0], [0, 1/2]]" 2,
      THEN conjunct2]
  show ?thesis by simp
qed

text \<open>
  Claim C8. \<^verbatim>\<open>get_maximum_likelihood_povm_estimator\<close> starts its loop from the uniform POVM:
  a list of \<open>m\<close> effects, each \<open>1/m\<close> times the identity matrix of dimension \<open>d\<close>, where \<open>m\<close> is
  the number of columns of the frequencies array and \<open>d\<close> the number of rows of the first
  probe state; the iteration count starts at 0 and the tested difference at 1.
\<close>

theorem estimator_starts_from_uniform_povm:
  "get_maximum_likelihood_povm_estimator la algorithmConvergenceThreshold calibration_setup =
     map_option (map_sum id st_povm)
       (mle_loop la calibration_setup (real_ncols (frequencies_array calibration_setup))
          \<lparr>st_i = 0,
           st_povm = replicate (real_ncols (frequencies_array calibration_setup))
             (mat_scale (1 / of_nat (real_ncols (frequencies_array calibration_setup)))
                (eye (nrows (probe_states calibration_setup ! 0)))),
           st_last_step_povm = [], st_current_difference = 1,
           st_threshold = algorithmConvergenceThreshold\<rparr>)
   \<and> initial_povm m d = replicate m (mat_scale (1 / of_nat m) (eye d))"
  by (simp add: get_maximum_likelihood_povm_estimator_def Let_def initial_povm_eq mat_div_eye)



text \<open>
  The threshold staircase, and when the loop returns. After \<open>n\<close> iterations the threshold
  is \<open>10\<^sup>-\<^sup>3\<close> when \<open>n > 500000\<close>, \<open>10\<^sup>-\<^sup>4\<close> when \<open>500000 \<ge> n > 100000\<close>, and the given one
  otherwise; no iteration raises a fault. The loop returns exactly when, after some number
  of iterations, the tested quantity is below the threshold of that moment.
\<close>

lemma threshold_staircase_and_exit:
  "(\<exists>s. mle_steps la cs m n
          \<lparr>st_i = 0, st_povm = povm, st_last_step_povm = [], st_current_difference = 1,
           st_threshold = threshold\<rparr> = Inr s
        \<and> st_i s = n
        \<and> st_threshold s =
            (if 500000 < n then 1 / 1000 else if 100000 < n then 1 / 10000 else threshold))
   \<and> ((\<exists>r. mle_loop la cs m s0 = Some r) \<longleftrightarrow>
        (\<exists>k s. mle_steps la cs m k s0 = Inr s
               \<and> \<bar>st_current_difference s\<bar> < st_threshold s))"
proof (intro conjI iffI)
  let ?s0 = "\<lparr>st_i = 0, st_povm = povm, st_last_step_povm = [], st_current_difference = 1,
           st_threshold = threshold\<rparr>"
  obtain s where s: "mle_steps la cs m n ?s0 = Inr s" using mle_steps_total by blast
  from mle_steps_staircase[OF s] have "st_i s = n \<and> st_threshold s =
            (if 500000 < n then 1 / 1000 else if 100000 < n then 1 / 10000 else threshold)"
    by simp
  with s show "\<exists>s. mle_steps la cs m n ?s0 = Inr s \<and> st_i s = n
        \<and> st_threshold s =
            (if 500000 < n then 1 / 1000 else if 100000 < n then 1 / 10000 else threshold)"
    by blast
next
  assume "\<exists>r. mle_loop la cs m s0 = Some r"
  then obtain r where "mle_loop la cs m s0 = Some r" by blast
  from mle_loop_runs[OF this]
  show "\<exists>k s. mle_steps la cs m k s0 = Inr s \<and> \<bar>st_current_difference s\<bar> < st_threshold s"
    by blast
next
  assume "\<exists>k s. mle_steps la cs m k s0 = Inr s \<and> \<bar>st_current_difference s\<bar> < st_threshold s"
  then obtain k s where "mle_steps la cs m k s0 = Inr s"
    "\<bar>st_current_difference s\<bar> < st_threshold s" by blast
  then show "\<exists>r. mle_loop la cs m s0 = Some r" by (rule mle_loop_terminates)
qed

lemma threshold_staircase_and_exit_example:
  "mle_steps diag_linalg calm_setup 2 1 (quiet_state 49) = Inr settled_state
   \<and> \<bar>st_current_difference settled_state\<bar> < st_threshold settled_state
   \<and> (\<exists>r. mle_loop diag_linalg calm_setup 2 (quiet_state 49) = Some r)"
proof -
  have a: "mle_steps diag_linalg calm_setup 2 1 (quiet_state 49) = Inr settled_state"
    using calm_fiftieth by simp
  have b: "\<bar>st_current_difference settled_state\<bar> < st_threshold settled_state"
    by (simp add: settled_state_def)
  from a b have "\<exists>k s. mle_steps diag_linalg calm_setup 2 k (quiet_state 49) = Inr s
               \<and> \<bar>st_current_difference s\<bar> < st_threshold s" by blast
  with threshold_staircase_and_exit [of diag_linalg calm_setup 2 0 "[]" 0 "quiet_state 49"]
  have "\<exists>r. mle_loop diag_linalg calm_setup 2 (quiet_state 49) = Some r" by blast
  with a b show ?thesis by simp
qed

text \<open>
  Claim C2. The claim is that the loop of \<^verbatim>\<open>get_maximum_likelihood_povm_estimator\<close> ends for
  every calibration setup, the staircase of thresholds guaranteeing the exit. The
  staircase is there, and the source says what it is for: \<^verbatim>\<open>make sure it does not take too
  long\<close>; the docstring promises a returned estimator. The code does not keep that promise.
  For one qubit probed with \<open>|0\<rangle>\<close> and \<open>|1\<rangle>\<close>, the frequencies \<open>[[7/8, 1/8], [1/8, 7/8]]\<close> and
  the default threshold \<open>10\<^sup>-\<^sup>6\<close>, the recursion has period two: it moves from the uniform
  POVM to \<open>{diag(49/50, 1/50), diag(1/50, 49/50)}\<close> and back. Every checkpoint difference is
  \<open>24/25\<close>, above every threshold of the staircase, and the call never returns.
\<close>

theorem estimator_does_not_terminate_on_swing_setup:
  "get_maximum_likelihood_povm_estimator diag_linalg (1 / 1000000) swing_setup = None"
proof -
  have "mle_loop diag_linalg swing_setup 2
          \<lparr>st_i = 0, st_povm = even_povm, st_last_step_povm = [],
           st_current_difference = 1, st_threshold = 1 / 1000000\<rparr> = None"
    by (rule mle_loop_diverges[where I = swing_invariant, OF swing_invariant_step])
       (simp_all add: swing_invariant_def)
  then show ?thesis
    by (simp add: get_maximum_likelihood_povm_estimator_def Let_def swing_shape swing_initial)
qed

end
